theory Spec2Isabelle
  imports Complex_Main "HOL-Library.List_Lexorder"
begin

section \<open>Exceptions\<close>

text \<open>
  The exceptions that the modelled code can raise or catch. A function that can raise
  returns \<open>error + 'a\<close>, with \<open>Inl\<close> for the exception.
\<close>

datatype error =
    TypeError | AttributeError | ValueError | ZeroDivisionError | OverflowError
  | OSError | JSONDecodeError | RequestException | HTTPError

section \<open>Text primitives of the resume parser\<close>

text \<open>
  A Python string is a sequence of code points, which the model takes as natural
  numbers; \<open>str\<close> turns a literal of the source into such a sequence.
\<close>

type_synonym ustring = "nat list"

definition str :: "string \<Rightarrow> ustring" where
  "str s = map of_char s"

text \<open>
  The character classes \<^verbatim>\<open>\d\<close>, \<^verbatim>\<open>\s\<close> and \<^verbatim>\<open>\w\<close> of the \<^verbatim>\<open>re\<close> module, the
  digit values of \<^verbatim>\<open>int\<close> and the mapping of \<^verbatim>\<open>str.lower\<close> are written out below for
  the code points under 256. For the others they are those of the Unicode database of the
  interpreter that runs the program. That table is not part of the repository and the
  model takes it as a parameter \<open>u\<close>. It says of a code point whether it is a decimal
  digit, and then of which value, or whitespace, or another alphanumeric character, or
  none of these, cases that exclude one another in Unicode; and it gives the lower-cased
  form of a text that has a code point from 256 on.
\<close>

datatype char_class = Decimal nat | Whitespace | Alphanumeric | Other

record unicode_db =
  class_of :: "nat \<Rightarrow> char_class"
  lower_of :: "ustring \<Rightarrow> ustring"

text \<open>\<^verbatim>\<open>\d\<close>: the decimal digits.\<close>

definition is_digit :: "unicode_db \<Rightarrow> nat \<Rightarrow> bool" where
  "is_digit u c =
     (if c < 256 then 48 \<le> c \<and> c \<le> 57
      else (case class_of u c of Decimal d \<Rightarrow> True | _ \<Rightarrow> False))"

text \<open>\<^verbatim>\<open>\s\<close>: tab to carriage return, the four separators, space, NEL and NBSP.\<close>

definition is_space :: "unicode_db \<Rightarrow> nat \<Rightarrow> bool" where
  "is_space u c =
     (if c < 256 then (9 \<le> c \<and> c \<le> 13) \<or> (28 \<le> c \<and> c \<le> 32) \<or> c = 133 \<or> c = 160
      else (case class_of u c of Whitespace \<Rightarrow> True | _ \<Rightarrow> False))"

text \<open>\<^verbatim>\<open>\w\<close>: alphanumeric code points, decimal digits among them, and the underscore.\<close>

definition is_word_char :: "unicode_db \<Rightarrow> nat \<Rightarrow> bool" where
  "is_word_char u c =
     (if c < 256 then
        (48 \<le> c \<and> c \<le> 57) \<or> (65 \<le> c \<and> c \<le> 90) \<or> c = 95 \<or> (97 \<le> c \<and> c \<le> 122)
        \<or> c = 170 \<or> c = 178 \<or> c = 179 \<or> c = 181 \<or> c = 185 \<or> c = 186
        \<or> (188 \<le> c \<and> c \<le> 190) \<or> (192 \<le> c \<and> c \<le> 214) \<or> (216 \<le> c \<and> c \<le> 246)
        \<or> 248 \<le> c
      else (case class_of u c of Decimal d \<Rightarrow> True | Alphanumeric \<Rightarrow> True | _ \<Rightarrow> False))"

text \<open>
  \<^verbatim>\<open>text.lower()\<close>. A text within Latin-1 is lower-cased code point by code point.
\<close>

definition lower_latin1 :: "nat \<Rightarrow> nat" where
  "lower_latin1 c =
     (if (65 \<le> c \<and> c \<le> 90) \<or> (192 \<le> c \<and> c \<le> 222 \<and> c \<noteq> 215) then c + 32 else c)"

definition lower :: "unicode_db \<Rightarrow> ustring \<Rightarrow> ustring" where
  "lower u t = (if list_all (\<lambda>c. c < 256) t then map lower_latin1 t else lower_of u t)"

text \<open>The slice \<^verbatim>\<open>t[i:k]\<close> for \<open>i \<le> k\<close>.\<close>

definition slice :: "ustring \<Rightarrow> nat \<Rightarrow> nat \<Rightarrow> ustring" where
  "slice t i k = take (k - i) (drop i t)"

text \<open>A literal pattern matches at position \<open>i\<close> when the text continues with it.\<close>

definition literal_at :: "ustring \<Rightarrow> ustring \<Rightarrow> nat \<Rightarrow> bool" where
  "literal_at s t i = (slice t i (i + length s) = s)"

text \<open>
  \<^verbatim>\<open>\b\<close> holds at position \<open>i\<close> when exactly one of the characters before and at
  \<open>i\<close> is a word character; outside the text there is no word character.
\<close>

definition word_before :: "unicode_db \<Rightarrow> ustring \<Rightarrow> nat \<Rightarrow> bool" where
  "word_before u t i = (0 < i \<and> i \<le> length t \<and> is_word_char u (t ! (i - 1)))"

definition word_at :: "unicode_db \<Rightarrow> ustring \<Rightarrow> nat \<Rightarrow> bool" where
  "word_at u t i = (i < length t \<and> is_word_char u (t ! i))"

definition at_boundary :: "unicode_db \<Rightarrow> ustring \<Rightarrow> nat \<Rightarrow> bool" where
  "at_boundary u t i = (word_before u t i \<noteq> word_at u t i)"

section \<open>Skill detection\<close>

definition SKILL_KEYWORDS :: "ustring list" where
  "SKILL_KEYWORDS = map str
    [''python'', ''java'', ''machine learning'', ''ml'', ''data science'', ''sql'',
     ''react'', ''javascript'', ''node'', ''c++'', ''c#'', ''aws'', ''docker'',
     ''tensorflow'', ''pytorch'', ''nlp'', ''excel'', ''tableau'']"

text \<open>
  \<^verbatim>\<open>re.search(r'\b' + re.escape(skill) + r'\b', text_lower)\<close>: the escaped skill is a
  literal, so the search succeeds when some position has a boundary, the literal, and a
  boundary again.
\<close>

definition skill_match_at :: "unicode_db \<Rightarrow> ustring \<Rightarrow> ustring \<Rightarrow> nat \<Rightarrow> bool" where
  "skill_match_at u skill t i =
     (at_boundary u t i \<and> literal_at skill t i \<and> at_boundary u t (i + length skill))"

definition search_skill :: "unicode_db \<Rightarrow> ustring \<Rightarrow> ustring \<Rightarrow> bool" where
  "search_skill u skill t = list_ex (skill_match_at u skill t) [0..<Suc (length t)]"

text \<open>The set comprehension over the vocabulary, then \<^verbatim>\<open>sorted\<close>.\<close>

definition detected_skills :: "unicode_db \<Rightarrow> ustring \<Rightarrow> ustring list" where
  "detected_skills u text_lower =
     sort (remdups (filter (\<lambda>skill. search_skill u skill text_lower) SKILL_KEYWORDS))"

section \<open>Experience extraction\<close>

text \<open>
  The pattern is \<^verbatim>\<open>(\d+)(\+)?\s*(?:years?|yrs?)\<close>. Each piece below lists the positions
  where it can end, in the order in which the backtracking matcher tries them: greedy
  repetitions longest first, the optional group taken before skipped, the alternatives
  left to right.
\<close>

text \<open>The length of the longest prefix of characters satisfying \<open>P\<close>.\<close>

definition run_length :: "(nat \<Rightarrow> bool) \<Rightarrow> ustring \<Rightarrow> nat \<Rightarrow> nat" where
  "run_length P t i = length (takeWhile P (drop i t))"

text \<open>\<^verbatim>\<open>(\d+)\<close>: at least one digit.\<close>

definition digits_ends :: "unicode_db \<Rightarrow> ustring \<Rightarrow> nat \<Rightarrow> nat list" where
  "digits_ends u t i = map (\<lambda>n. i + n) (rev [1..<Suc (run_length (is_digit u) t i)])"

text \<open>\<^verbatim>\<open>(\+)?\<close>\<close>

definition plus_ends :: "ustring \<Rightarrow> nat \<Rightarrow> nat list" where
  "plus_ends t p = (if literal_at (str ''+'') t p then [p + 1, p] else [p])"

text \<open>\<^verbatim>\<open>\s*\<close>\<close>

definition spaces_ends :: "unicode_db \<Rightarrow> ustring \<Rightarrow> nat \<Rightarrow> nat list" where
  "spaces_ends u t p = map (\<lambda>n. p + n) (rev [0..<Suc (run_length (is_space u) t p)])"

text \<open>\<^verbatim>\<open>(?:years?|yrs?)\<close>\<close>

definition opt_s_ends :: "ustring \<Rightarrow> nat \<Rightarrow> nat list" where
  "opt_s_ends t p = (if literal_at (str ''s'') t p then [p + 1, p] else [p])"

definition unit_ends :: "ustring \<Rightarrow> nat \<Rightarrow> nat list" where
  "unit_ends t q =
     (if literal_at (str ''year'') t q then opt_s_ends t (q + 4) else []) @
     (if literal_at (str ''yr'') t q then opt_s_ends t (q + 2) else [])"

text \<open>
  All ways the pattern matches from position \<open>i\<close>, as pairs of the end of group 1 and
  the end of the whole match; the matcher reports the first.
\<close>

definition match_paths :: "unicode_db \<Rightarrow> ustring \<Rightarrow> nat \<Rightarrow> (nat \<times> nat) list" where
  "match_paths u t i =
     concat (map (\<lambda>k.
       concat (map (\<lambda>p.
         concat (map (\<lambda>q.
           map (\<lambda>e. (k, e)) (unit_ends t q))
         (spaces_ends u t p)))
       (plus_ends t k)))
     (digits_ends u t i))"

definition match_at :: "unicode_db \<Rightarrow> ustring \<Rightarrow> nat \<Rightarrow> (nat \<times> nat) option" where
  "match_at u t i = (case match_paths u t i of [] \<Rightarrow> None | m # _ \<Rightarrow> Some m)"

text \<open>
  \<^verbatim>\<open>re.findall\<close> scans left to right: where the pattern matches, group 1 is recorded and
  the scan resumes at the end of the match (one further when the match is empty); where
  it does not, the scan moves one character on.
\<close>

function findall_from :: "unicode_db \<Rightarrow> ustring \<Rightarrow> nat \<Rightarrow> ustring list" where
  "findall_from u t i =
     (if length t < i then []
      else case match_at u t i of
             None \<Rightarrow> findall_from u t (Suc i)
           | Some (k, e) \<Rightarrow> slice t i k # findall_from u t (if i < e then e else Suc i))"
  by pat_completeness auto
termination
  by (relation "measure (\<lambda>(u, t, i). Suc (length t) - i)") auto

declare findall_from.simps [simp del]

definition xp_matches :: "unicode_db \<Rightarrow> ustring \<Rightarrow> ustring list" where
  "xp_matches u text_lower = findall_from u text_lower 0"

text \<open>
  \<^verbatim>\<open>int(m[0])\<close> on the text of group 1, a non-empty string of decimal digits. The
  interpreter converts at most \<^verbatim>\<open>sys.get_int_max_str_digits()\<close> digits, 4300 unless
  the process changes the setting, which this program does not, and raises
  \<^verbatim>\<open>ValueError\<close> on a longer string, leading zeros counted.
\<close>

definition int_max_str_digits :: nat where
  "int_max_str_digits = 4300"

definition digit_value :: "unicode_db \<Rightarrow> nat \<Rightarrow> int" where
  "digit_value u c =
     (if c < 256 then int c - 48
      else (case class_of u c of Decimal d \<Rightarrow> int d | _ \<Rightarrow> 0))"

definition int_of_digits :: "unicode_db \<Rightarrow> ustring \<Rightarrow> int" where
  "int_of_digits u ds = foldl (\<lambda>a c. 10 * a + digit_value u c) 0 ds"

definition py_int :: "unicode_db \<Rightarrow> ustring \<Rightarrow> error + int" where
  "py_int u ds =
     (if int_max_str_digits < length ds then Inl ValueError else Inr (int_of_digits u ds))"

text \<open>
  The generator \<^verbatim>\<open>(int(m[0]) for m in xp_matches)\<close>, consumed from the left: the first
  conversion that raises ends it.
\<close>

fun converted :: "unicode_db \<Rightarrow> ustring list \<Rightarrow> error + int list" where
  "converted u [] = Inr []"
| "converted u (m # ms) =
     (case py_int u m of
        Inl err \<Rightarrow> Inl err
      | Inr n \<Rightarrow> (case converted u ms of Inl err \<Rightarrow> Inl err | Inr ns \<Rightarrow> Inr (n # ns)))"

text \<open>\<^verbatim>\<open>max(xs, default=d)\<close>\<close>

definition max_default :: "int list \<Rightarrow> int \<Rightarrow> int" where
  "max_default xs d = (case xs of [] \<Rightarrow> d | y # ys \<Rightarrow> fold max ys y)"

section \<open>The feature extractor\<close>

record features =
  skills :: "ustring list"
  experience :: int

definition extract_resume_features :: "unicode_db \<Rightarrow> ustring \<Rightarrow> error + features" where
  "extract_resume_features u text =
     (let text_lower = lower u text;
          detected = detected_skills u text_lower
      in case converted u (xp_matches u text_lower) of
           Inl err \<Rightarrow> Inl err
         | Inr years \<Rightarrow> Inr \<lparr>skills = detected, experience = max_default years 0\<rparr>)"

text \<open>
  A database that classifies no code point from 256 on and lower-cases nothing. A text
  within Latin-1 never consults the database, so that the program can be evaluated on
  such a text with it.
\<close>

definition plain_db :: unicode_db where
  "plain_db = \<lparr>class_of = (\<lambda>c. Other), lower_of = (\<lambda>t. t)\<rparr>"

section \<open>Experience as the specification words it\<close>

text \<open>
  The specification reads: scan for all occurrences of an integer, optionally followed
  by a plus sign, followed by "year(s)" or "yr(s)", with optional whitespace in between;
  take the largest integer found, and \<open>0\<close> when there is none. The definitions below
  follow these words on the lower-cased text, independently of the matcher above: an
  integer is any non-empty stretch of digits \<open>t[i:k]\<close>.
\<close>

definition all_in :: "(nat \<Rightarrow> bool) \<Rightarrow> ustring \<Rightarrow> nat \<Rightarrow> nat \<Rightarrow> bool" where
  "all_in P t i k = list_all P (slice t i k)"

definition spec_unit_at :: "ustring \<Rightarrow> nat \<Rightarrow> bool" where
  "spec_unit_at t q =
     list_ex (\<lambda>w. literal_at w t q) (map str [''years'', ''year'', ''yrs'', ''yr''])"

definition spec_occurrence :: "unicode_db \<Rightarrow> ustring \<Rightarrow> nat \<Rightarrow> nat \<Rightarrow> bool" where
  "spec_occurrence u t i k =
     (i < k \<and> k \<le> length t \<and> all_in (is_digit u) t i k \<and>
      list_ex (\<lambda>p. list_ex (\<lambda>q. all_in (is_space u) t p q \<and> spec_unit_at t q)
                     [p..<Suc (length t)])
        (if literal_at (str ''+'') t k then [k, k + 1] else [k]))"

definition spec_integers :: "unicode_db \<Rightarrow> ustring \<Rightarrow> int list" where
  "spec_integers u t =
     concat (map (\<lambda>i. map (\<lambda>k. int_of_digits u (slice t i k))
                         (filter (spec_occurrence u t i) [Suc i..<Suc (length t)]))
                 [0..<length t])"

definition spec_experience :: "unicode_db \<Rightarrow> ustring \<Rightarrow> int" where
  "spec_experience u t = fold max (spec_integers u t) 0"

text \<open>Some occurrence has an integer of more digits than the interpreter converts.\<close>

definition long_occurrence :: "unicode_db \<Rightarrow> ustring \<Rightarrow> bool" where
  "long_occurrence u t =
     list_ex (\<lambda>i. list_ex (\<lambda>k. spec_occurrence u t i k \<and> int_max_str_digits < k - i)
                     [Suc i..<Suc (length t)])
       [0..<length t]"

section \<open>Values and the cache file\<close>

text \<open>
  A finite float \<open>Dbl m e\<close> has the value \<open>m * 2 ^ e\<close>.
\<close>

datatype double = Dbl int int

text \<open>
  The values that \<^verbatim>\<open>json.load\<close> and \<^verbatim>\<open>resp.json()\<close> produce. A dictionary is an
  association list in insertion order, its keys distinct.
\<close>

datatype pyval =
    PNone
  | PBool bool
  | PInt int
  | PFloat double
  | PStr string
  | PList "pyval list"
  | PDict "(string \<times> pyval) list"

text \<open>Truth value testing, as in \<^verbatim>\<open>if jobs:\<close> and \<^verbatim>\<open>a or b\<close>.\<close>

fun truthy :: "pyval \<Rightarrow> bool" where
  "truthy PNone = False"
| "truthy (PBool b) = b"
| "truthy (PInt n) = (n \<noteq> 0)"
| "truthy (PFloat (Dbl m e)) = (m \<noteq> 0)"
| "truthy (PStr s) = (s \<noteq> [])"
| "truthy (PList xs) = (xs \<noteq> [])"
| "truthy (PDict kvs) = (kvs \<noteq> [])"

definition py_or :: "pyval \<Rightarrow> pyval \<Rightarrow> pyval" where
  "py_or a b = (if truthy a then a else b)"

text \<open>\<^verbatim>\<open>d.get(key, default)\<close> on a dictionary.\<close>

definition dict_get :: "(string \<times> pyval) list \<Rightarrow> string \<Rightarrow> pyval \<Rightarrow> pyval" where
  "dict_get d key dflt = (case map_of d key of None \<Rightarrow> dflt | Some v \<Rightarrow> v)"

text \<open>\<^verbatim>\<open>v[:n]\<close>: lists and strings can be sliced, every other value raises.\<close>

fun py_take :: "nat \<Rightarrow> pyval \<Rightarrow> error + pyval" where
  "py_take n (PList xs) = Inr (PList (take n xs))"
| "py_take n (PStr s) = Inr (PStr (take n s))"
| "py_take n _ = Inl TypeError"

text \<open>\<^verbatim>\<open>existing + jobs\<close> with a list on the right: only a list can be on the left.\<close>

fun py_add_list :: "pyval \<Rightarrow> pyval list \<Rightarrow> error + pyval" where
  "py_add_list (PList xs) ys = Inr (PList (xs @ ys))"
| "py_add_list _ ys = Inl TypeError"

text \<open>
  The file \<^verbatim>\<open>data/scraped_jobs.json\<close> is the only state. It is absent, or present
  with content that cannot be read as JSON (an empty or damaged file), or present
  holding a JSON document, which is identified with the value that \<^verbatim>\<open>json.load\<close>
  returns for it: \<^verbatim>\<open>json.dump\<close> followed by \<^verbatim>\<open>json.load\<close> gives back the value
  written. Failures of the file system while writing are outside the model.
\<close>

datatype store = Missing | Unreadable | Holds pyval

definition path_exists :: "store \<Rightarrow> bool" where
  "path_exists st = (st \<noteq> Missing)"

fun read_json :: "store \<Rightarrow> error + pyval" where
  "read_json Missing = Inl OSError"
| "read_json Unreadable = Inl JSONDecodeError"
| "read_json (Holds v) = Inr v"

definition demo_jobs :: pyval where
  "demo_jobs = PList
    [PDict [(''title'', PStr ''Demo Data Scientist''),
            (''company'', PStr ''Sample Analytics''),
            (''location'', PStr ''Pune''),
            (''salary'', PStr ''15-20 LPA''),
            (''description'', PStr ''Work on ML pipelines, SQL, Python, and stakeholder presentations. Growth opportunity.''),
            (''url'', PStr ''https://example.com/apply-demo-ds''),
            (''posted_date'', PStr ''2025-10-30'')],
     PDict [(''title'', PStr ''Demo AI Engineer''),
            (''company'', PStr ''Demo AI Innovations''),
            (''location'', PStr ''Remote''),
            (''salary'', PStr ''12-18 LPA''),
            (''description'', PStr ''Develop, tune, and deploy deep learning models in production for Indian clients.''),
            (''url'', PStr ''https://example.com/apply-demo-ai''),
            (''posted_date'', PStr ''2025-10-29'')]]"

text \<open>
  The body of the \<^verbatim>\<open>try\<close> block of \<^verbatim>\<open>load_cache_or_demo\<close>: \<open>Inr (Some v)\<close> when it
  returns \<open>v\<close>, \<open>Inr None\<close> when it falls through, \<open>Inl\<close> when it raises.
\<close>

definition try_cache :: "store \<Rightarrow> error + pyval option" where
  "try_cache st =
     (if path_exists st then
        (case read_json st of
           Inl err \<Rightarrow> Inl err
         | Inr jobs \<Rightarrow>
             if truthy jobs then
               (case py_take 8 jobs of Inl err \<Rightarrow> Inl err | Inr v \<Rightarrow> Inr (Some v))
             else Inr None)
      else Inr None)"

definition load_cache_or_demo :: "store \<Rightarrow> error + pyval" where
  "load_cache_or_demo st =
     (case try_cache st of
        Inr (Some v) \<Rightarrow> Inr v
      | Inr None \<Rightarrow> Inr demo_jobs
      | Inl err \<Rightarrow> Inr demo_jobs)"

text \<open>
  \<^verbatim>\<open>save_jobs\<close> reads the existing list, opens the file for writing, which empties it,
  and only then evaluates \<^verbatim>\<open>existing + jobs\<close>; when that raises, the emptied file
  stays behind.
\<close>

definition save_jobs :: "pyval list \<Rightarrow> store \<Rightarrow> (error + unit) \<times> store" where
  "save_jobs jobs st =
     (let existing =
            (if path_exists st then
               (case read_json st of Inl err \<Rightarrow> PList [] | Inr v \<Rightarrow> v)
             else PList [])
      in case py_add_list existing jobs of
           Inl err \<Rightarrow> (Inl err, Unreadable)
         | Inr v \<Rightarrow> (Inr (), Holds v))"

section \<open>The job fetcher\<close>

text \<open>
  The outcome of the request: \<^verbatim>\<open>requests.get\<close> raises, \<^verbatim>\<open>raise_for_status\<close> raises,
  \<^verbatim>\<open>resp.json()\<close> raises, or \<^verbatim>\<open>resp.json()\<close> returns a value.
\<close>

datatype response = ConnectionFailed | BadStatus | NotJson | Body pyval

text \<open>Iterating a value in a \<^verbatim>\<open>for\<close> loop.\<close>

fun py_iter :: "pyval \<Rightarrow> error + pyval list" where
  "py_iter (PList xs) = Inr xs"
| "py_iter (PStr s) = Inr (map (\<lambda>c. PStr [c]) s)"
| "py_iter (PDict kvs) = Inr (map (\<lambda>kv. PStr (fst kv)) kvs)"
| "py_iter _ = Inl TypeError"

text \<open>One pass of the loop body: only a dictionary has \<^verbatim>\<open>get\<close>.\<close>

fun parse_job :: "pyval \<Rightarrow> error + pyval" where
  "parse_job (PDict job) = Inr (PDict
     [(''title'', dict_get job ''job_title'' PNone),
      (''company'', dict_get job ''employer_name'' PNone),
      (''location'', py_or (dict_get job ''job_city'' PNone)
                       (py_or (dict_get job ''job_country'' PNone)
                              (dict_get job ''job_state'' PNone))),
      (''salary'', py_or (dict_get job ''job_min_salary'' PNone) (PStr [])),
      (''description'', dict_get job ''job_description'' PNone),
      (''url'', py_or (dict_get job ''job_apply_link'' PNone)
                      (dict_get job ''job_google_link'' PNone)),
      (''posted_date'', py_or (dict_get job ''job_posted_at_datetime_utc'' PNone)
                              (dict_get job ''job_posted_at_timestamp'' PNone))])"
| "parse_job _ = Inl AttributeError"

fun parse_jobs :: "pyval list \<Rightarrow> error + pyval list" where
  "parse_jobs [] = Inr []"
| "parse_jobs (job # rest) =
     (case parse_job job of
        Inl err \<Rightarrow> Inl err
      | Inr j \<Rightarrow> (case parse_jobs rest of Inl err \<Rightarrow> Inl err | Inr js \<Rightarrow> Inr (j # js)))"

text \<open>The \<^verbatim>\<open>params\<close> dictionary of the request.\<close>

definition request_params ::
  "string \<Rightarrow> string option \<Rightarrow> bool \<Rightarrow> string option \<Rightarrow> int \<Rightarrow> int \<Rightarrow> (string \<times> pyval) list" where
  "request_params query location remote date_posted limit page =
     (let combined_query =
            (case location of
               None \<Rightarrow> query
             | Some l \<Rightarrow> if l \<noteq> [] then query @ '' in '' @ l else query)
      in [(''query'', PStr combined_query), (''page'', PInt page),
          (''num_pages'', PInt 1), (''limit'', PInt limit)]
         @ (if remote then [(''remote_jobs_only'', PStr ''true'')] else [])
         @ (case date_posted of
              None \<Rightarrow> []
            | Some d \<Rightarrow> if d \<noteq> [] then [(''date_posted'', PStr d)] else []))"

text \<open>
  The \<^verbatim>\<open>try\<close> block of \<^verbatim>\<open>fetch_jobs\<close>: the request, the status check, the parsing of
  the body and \<^verbatim>\<open>.get("data", [])\<close>, which only a dictionary has.
\<close>

fun jobs_data_of :: "response \<Rightarrow> error + pyval" where
  "jobs_data_of ConnectionFailed = Inl RequestException"
| "jobs_data_of BadStatus = Inl HTTPError"
| "jobs_data_of NotJson = Inl JSONDecodeError"
| "jobs_data_of (Body (PDict d)) = Inr (dict_get d ''data'' (PList []))"
| "jobs_data_of (Body _) = Inl AttributeError"

text \<open>
  \<^verbatim>\<open>fetch_jobs\<close>: \<open>getenv\<close> is the value of \<^verbatim>\<open>RAPIDAPI_KEY\<close> in the environment,
  \<open>page\<close> the number that \<^verbatim>\<open>random.randint(1, 3)\<close> draws, and \<open>net\<close> the service,
  which answers a key and the parameters of a request. The function returns its result
  together with the cache file it leaves behind. Log output is not modelled.
\<close>

definition fetch_jobs ::
  "string option \<Rightarrow> int \<Rightarrow> (string \<Rightarrow> (string \<times> pyval) list \<Rightarrow> response)
   \<Rightarrow> string \<Rightarrow> string option \<Rightarrow> bool \<Rightarrow> string option \<Rightarrow> int
   \<Rightarrow> store \<Rightarrow> (error + pyval) \<times> store" where
  "fetch_jobs getenv page net query location remote date_posted limit st =
     (case getenv of
        None \<Rightarrow> (load_cache_or_demo st, st)
      | Some rapidapi_key \<Rightarrow>
          if rapidapi_key = [] then (load_cache_or_demo st, st)
          else
            (case jobs_data_of
                    (net rapidapi_key
                       (request_params query location remote date_posted limit page)) of
               Inl err \<Rightarrow> (load_cache_or_demo st, st)
             | Inr jobs_data \<Rightarrow>
                 (case py_iter jobs_data of
                    Inl err \<Rightarrow> (Inl err, st)
                  | Inr raw \<Rightarrow>
                      (case parse_jobs raw of
                         Inl err \<Rightarrow> (Inl err, st)
                       | Inr parsed_jobs \<Rightarrow>
                           if parsed_jobs \<noteq> [] then
                             (case save_jobs parsed_jobs st of
                                (Inl err, st') \<Rightarrow> (Inl err, st')
                              | (Inr u, st') \<Rightarrow> (Inr (PList parsed_jobs), st'))
                           else (Inr (PList []), st)))))"

section \<open>Floating-point arithmetic\<close>

text \<open>
  Python's \<^verbatim>\<open>float\<close> is the IEEE 754 binary64 format: 53 significant bits, the least
  quantum \<open>2\<close> to the \<open>- 1074\<close>, values below \<open>2\<close> to the \<open>1024\<close>. Every operation
  returns the exact result rounded to the nearest float, ties to the even significand.
\<close>

fun bit_length :: "nat \<Rightarrow> nat" where
  "bit_length n = (if n = 0 then 0 else Suc (bit_length (n div 2)))"

declare bit_length.simps [simp del]

text \<open>\<open>pow2_le b n d\<close>: \<open>2\<close> to the \<open>b\<close> is at most \<open>n / d\<close>.\<close>

definition pow2_le :: "int \<Rightarrow> nat \<Rightarrow> nat \<Rightarrow> bool" where
  "pow2_le b n d = (if 0 \<le> b then d * 2 ^ nat b \<le> n else d \<le> n * 2 ^ nat (- b))"

text \<open>The binary exponent of \<open>n / d\<close>, for positive \<open>n\<close> and \<open>d\<close>.\<close>

definition floor_log2 :: "nat \<Rightarrow> nat \<Rightarrow> int" where
  "floor_log2 n d =
     (let b = int (bit_length n) - int (bit_length d)
      in if pow2_le b n d then b else b - 1)"

text \<open>The exponent of the quantum in which \<open>n / d\<close> is rounded.\<close>

definition quantum_exp :: "nat \<Rightarrow> nat \<Rightarrow> int" where
  "quantum_exp n d = max (floor_log2 n d - 52) (- 1074)"

text \<open>The integer nearest to \<open>a / b\<close>, the even one of two that are equally near.\<close>

definition round_half_even :: "nat \<Rightarrow> nat \<Rightarrow> nat" where
  "round_half_even a b =
     (let q = a div b; r = a mod b
      in if 2 * r < b then q
         else if b < 2 * r then q + 1
         else if even q then q else q + 1)"

text \<open>
  Rounding the positive fraction \<open>n / d\<close>. A result of \<open>2\<close> to the \<open>1024\<close> or more is
  an overflow.
\<close>

definition round_pos :: "nat \<Rightarrow> nat \<Rightarrow> error + double" where
  "round_pos n d =
     (let e = quantum_exp n d;
          m = (if 0 \<le> e then round_half_even n (d * 2 ^ nat e)
               else round_half_even (n * 2 ^ nat (- e)) d)
      in if 0 \<le> e \<and> 2 ^ 1024 \<le> m * 2 ^ nat e then Inl OverflowError
         else Inr (Dbl (int m) e))"

definition round_frac :: "int \<Rightarrow> nat \<Rightarrow> error + double" where
  "round_frac n d =
     (if n = 0 then Inr (Dbl 0 0)
      else case round_pos (nat \<bar>n\<bar>) d of
             Inl err \<Rightarrow> Inl err
           | Inr (Dbl m e) \<Rightarrow> Inr (Dbl (sgn n * m) e))"

text \<open>Rounding \<open>m * 2 ^ e\<close>.\<close>

definition round_dyadic :: "int \<Rightarrow> int \<Rightarrow> error + double" where
  "round_dyadic m e =
     (if 0 \<le> e then round_frac (m * 2 ^ nat e) 1 else round_frac m (2 ^ nat (- e)))"

text \<open>
  \<^verbatim>\<open>a / b\<close> on integers: the quotient, correctly rounded; \<^verbatim>\<open>ZeroDivisionError\<close> for
  a zero divisor and \<^verbatim>\<open>OverflowError\<close> when the quotient is too large for a float.
\<close>

definition py_truediv :: "int \<Rightarrow> int \<Rightarrow> error + double" where
  "py_truediv a b =
     (if b = 0 then Inl ZeroDivisionError else round_frac (a * sgn b) (nat \<bar>b\<bar>))"

text \<open>
  Product and sum of floats. Where the rounded result is too large, Python continues
  with an infinity, which the final \<^verbatim>\<open>int(...)\<close> of the fit score rejects with
  \<^verbatim>\<open>OverflowError\<close>; the model reports that error at the operation.
\<close>

fun dbl_mul :: "double \<Rightarrow> double \<Rightarrow> error + double" where
  "dbl_mul (Dbl m1 e1) (Dbl m2 e2) = round_dyadic (m1 * m2) (e1 + e2)"

fun dbl_add :: "double \<Rightarrow> double \<Rightarrow> error + double" where
  "dbl_add (Dbl m1 e1) (Dbl m2 e2) =
     (let e = min e1 e2
      in round_dyadic (m1 * 2 ^ nat (e1 - e) + m2 * 2 ^ nat (e2 - e)) e)"

fun dbl_less :: "double \<Rightarrow> double \<Rightarrow> bool" where
  "dbl_less (Dbl m1 e1) (Dbl m2 e2) =
     (let e = min e1 e2
      in m1 * 2 ^ nat (e1 - e) < m2 * 2 ^ nat (e2 - e))"

text \<open>\<^verbatim>\<open>min(x, y)\<close> returns \<open>y\<close> when \<open>y < x\<close> and \<open>x\<close> otherwise.\<close>

definition py_min :: "double \<Rightarrow> double \<Rightarrow> double" where
  "py_min x y = (if dbl_less y x then y else x)"

text \<open>\<^verbatim>\<open>int(x)\<close> on a float truncates towards zero.\<close>

fun dbl_trunc :: "double \<Rightarrow> int" where
  "dbl_trunc (Dbl m e) =
     (if 0 \<le> e then m * 2 ^ nat e else sgn m * (\<bar>m\<bar> div 2 ^ nat (- e)))"

section \<open>Fit scoring\<close>

text \<open>
  \<^verbatim>\<open>len(common_skills)\<close>, the size of the intersection of the two skill sets.
\<close>

definition common_count :: "features \<Rightarrow> features \<Rightarrow> nat" where
  "common_count res_features job_features =
     length (remdups (filter (\<lambda>s. s \<in> set (skills job_features)) (skills res_features)))"

text \<open>The two denominators: \<^verbatim>\<open>len(job_features["skills"]) or 1\<close> and \<^verbatim>\<open>xp_job\<close>.\<close>

definition skills_denominator :: "features \<Rightarrow> int" where
  "skills_denominator job_features =
     (if length (skills job_features) \<noteq> 0 then int (length (skills job_features)) else 1)"

definition xp_job :: "features \<Rightarrow> int" where
  "xp_job job_features =
     (if experience job_features \<noteq> 0 then experience job_features else 1)"

text \<open>
  The expression assigned to \<^verbatim>\<open>fit_percent\<close> in \<^verbatim>\<open>analyze_job_fit\<close>, evaluated left
  to right. The constants \<open>70\<close>, \<open>30\<close> and \<open>1\<close> are integers that Python converts to
  floats without rounding.
\<close>

definition fit_percent :: "features \<Rightarrow> features \<Rightarrow> error + int" where
  "fit_percent res_features job_features =
     (case py_truediv (int (common_count res_features job_features))
             (skills_denominator job_features) of
        Inl err \<Rightarrow> Inl err
      | Inr coverage \<Rightarrow>
     (case dbl_mul coverage (Dbl 70 0) of
        Inl err \<Rightarrow> Inl err
      | Inr skill_score \<Rightarrow>
     (case py_truediv (experience res_features) (xp_job job_features) of
        Inl err \<Rightarrow> Inl err
      | Inr ratio \<Rightarrow>
     (case dbl_mul (py_min ratio (Dbl 1 0)) (Dbl 30 0) of
        Inl err \<Rightarrow> Inl err
      | Inr xp_score \<Rightarrow>
     (case dbl_add skill_score xp_score of
        Inl err \<Rightarrow> Inl err
      | Inr score \<Rightarrow> Inr (dbl_trunc score))))))"

text \<open>The fit score that \<^verbatim>\<open>analyze_job_fit\<close> computes from its two texts.\<close>

definition analyze_job_fit_percent :: "unicode_db \<Rightarrow> ustring \<Rightarrow> ustring \<Rightarrow> error + int" where
  "analyze_job_fit_percent u resume_text job_description =
     (case extract_resume_features u resume_text of
        Inl err \<Rightarrow> Inl err
      | Inr res_features \<Rightarrow>
     (case extract_resume_features u job_description of
        Inl err \<Rightarrow> Inl err
      | Inr job_features \<Rightarrow> fit_percent res_features job_features))"

section \<open>The cache file: loading and saving\<close>

lemma load_returns: "\<exists>v. load_cache_or_demo st = Inr v"
  by (simp add: load_cache_or_demo_def split: sum.splits option.splits)

lemma load_demo_cases:
  "st = Missing \<or> st = Unreadable \<or> st = Holds (PList []) \<Longrightarrow>
     load_cache_or_demo st = Inr demo_jobs"
  by (auto simp: load_cache_or_demo_def try_cache_def path_exists_def)

lemma load_persisted_only:
  "load_cache_or_demo st = Inr demo_jobs
   \<or> (\<exists>jobs. st = Holds jobs \<and> truthy jobs \<and> py_take 8 jobs = load_cache_or_demo st)"
  by (cases st) (auto simp: load_cache_or_demo_def try_cache_def path_exists_def split: sum.splits)

text \<open>
  Claim C7. \<^verbatim>\<open>load_cache_or_demo\<close> never fails: it returns a value for every state
  of the cache file. When the file is missing, cannot be read, or holds an empty list,
  the value is the built-in demo set, which has two records. Whenever the value is not
  the demo set, the file is present, holds a non-empty value, and the result is the
  leading part of that value.
\<close>

theorem load_cache_or_demo_never_fails:
  "(\<exists>v. load_cache_or_demo st = Inr v)
   \<and> (st = Missing \<or> st = Unreadable \<or> st = Holds (PList []) \<longrightarrow>
        load_cache_or_demo st = Inr demo_jobs)
   \<and> (load_cache_or_demo st = Inr demo_jobs
        \<or> (\<exists>jobs. st = Holds jobs \<and> truthy jobs \<and> py_take 8 jobs = load_cache_or_demo st))
   \<and> (\<exists>a b. demo_jobs = PList [a, b])"
  using load_returns [of st] load_demo_cases [of st] load_persisted_only [of st]
  by (simp add: demo_jobs_def)

theorem load_cache_or_demo_never_fails_witness:
  "load_cache_or_demo Missing = Inr demo_jobs
   \<and> load_cache_or_demo Unreadable = Inr demo_jobs
   \<and> load_cache_or_demo (Holds (PList [])) = Inr demo_jobs"
  using load_cache_or_demo_never_fails [of Missing]
    load_cache_or_demo_never_fails [of Unreadable]
    load_cache_or_demo_never_fails [of "Holds (PList [])"]
  by simp

text \<open>
  Claim C10. \<^verbatim>\<open>load_cache_or_demo\<close> has no limit parameter. From a cache file that
  holds a list of more than eight records it returns the first eight, in file order,
  and so exactly eight.
\<close>

theorem load_cache_caps_at_eight:
  "8 < length jobs \<Longrightarrow>
     load_cache_or_demo (Holds (PList jobs)) = Inr (PList (take 8 jobs))
     \<and> length (take 8 jobs) = 8"
  by (auto simp: load_cache_or_demo_def try_cache_def path_exists_def)

theorem load_cache_caps_at_eight_witness:
  "8 < length [PInt 1, PInt 2, PInt 3, PInt 4, PInt 5, PInt 6, PInt 7, PInt 8, PInt 9]
   \<and> load_cache_or_demo
        (Holds (PList [PInt 1, PInt 2, PInt 3, PInt 4, PInt 5, PInt 6, PInt 7, PInt 8, PInt 9]))
      = Inr (PList [PInt 1, PInt 2, PInt 3, PInt 4, PInt 5, PInt 6, PInt 7, PInt 8])"
  using load_cache_caps_at_eight
    [of "[PInt 1, PInt 2, PInt 3, PInt 4, PInt 5, PInt 6, PInt 7, PInt 8, PInt 9]"]
  by simp

text \<open>
  Claim C6, as stated: appending \<open>N\<close> records to a fresh store and loading returns
  exactly those \<open>N\<close> records. It fails for nine records appended to a missing file:
  the load returns eight.
\<close>

theorem cache_round_trip_counterexample:
  "load_cache_or_demo
     (snd (save_jobs (replicate 9 (PDict [(''title'', PStr ''Engineer'')])) Missing))
   \<noteq> Inr (PList (replicate 9 (PDict [(''title'', PStr ''Engineer'')])))"
  by (simp add: save_jobs_def load_cache_or_demo_def try_cache_def path_exists_def
        numeral_eq_Suc)

text \<open>
  Claim C6, amended. Appending a non-empty list of records to a store whose file is
  missing, unreadable or holds the empty list leaves a file holding exactly those
  records; loading then returns the first eight of them, in order and unchanged, so
  all of them when there are at most eight.
\<close>

theorem cache_round_trip_up_to_eight:
  assumes "st = Missing \<or> st = Unreadable \<or> st = Holds (PList [])" and "jobs \<noteq> []"
  shows "save_jobs jobs st = (Inr (), Holds (PList jobs))
     \<and> load_cache_or_demo (snd (save_jobs jobs st)) = Inr (PList (take 8 jobs))
     \<and> (length jobs \<le> 8 \<longrightarrow>
          load_cache_or_demo (snd (save_jobs jobs st)) = Inr (PList jobs))"
  using assms
  by (auto simp: save_jobs_def load_cache_or_demo_def try_cache_def path_exists_def)

theorem cache_round_trip_up_to_eight_witness:
  "save_jobs [PDict [(''title'', PStr ''Engineer'')], PDict [(''title'', PNone)]] Unreadable
     = (Inr (), Holds (PList [PDict [(''title'', PStr ''Engineer'')], PDict [(''title'', PNone)]]))
   \<and> load_cache_or_demo
        (snd (save_jobs [PDict [(''title'', PStr ''Engineer'')], PDict [(''title'', PNone)]]
                Unreadable))
     = Inr (PList [PDict [(''title'', PStr ''Engineer'')], PDict [(''title'', PNone)]])"
  using cache_round_trip_up_to_eight [of Unreadable
      "[PDict [(''title'', PStr ''Engineer'')], PDict [(''title'', PNone)]]"]
  by auto

section \<open>The job fetcher: fallback and empty results\<close>





text \<open>
  Claim C9. When the key is set, the request succeeds and the response carries no
  job, \<^verbatim>\<open>fetch_jobs\<close> returns the empty list, not the cache or the demo records, and
  the cache file is unchanged: \<^verbatim>\<open>save_jobs\<close> is not called.
\<close>

theorem fetch_jobs_zero_results:
  assumes "getenv = Some rapidapi_key" and "rapidapi_key \<noteq> []"
    and "net rapidapi_key (request_params query location remote date_posted limit page)
           = Body (PDict d)"
    and "py_iter (dict_get d ''data'' (PList [])) = Inr []"
  shows "fetch_jobs getenv page net query location remote date_posted limit st
           = (Inr (PList []), st)"
  using assms by (simp add: fetch_jobs_def)

theorem fetch_jobs_zero_results_witness:
  "fetch_jobs (Some ''k'') 2 (\<lambda>key params. Body (PDict [(''data'', PList [])]))
      ''Data Scientist'' (Some ''Pune'') False (Some ''week'') 5 (Holds (PList [PInt 7]))
     = (Inr (PList []), Holds (PList [PInt 7]))"
  using fetch_jobs_zero_results [of "Some ''k''" "''k''"
      "\<lambda>key params. Body (PDict [(''data'', PList [])])"
      "''Data Scientist''" "Some ''Pune''" False "Some ''week''" 5 2
      "[(''data'', PList [])]" "Holds (PList [PInt 7])"]
  by (simp add: dict_get_def)

section \<open>The feature extractor: the matcher\<close>

lemma str_simps [simp]: "str [] = []" "str (c # cs) = of_char c # str cs"
  by (simp_all add: str_def)

lemma length_str [simp]: "length (str s) = length s"
  by (simp add: str_def)

lemma take_run_all:
  assumes "n \<le> run_length P t i" and "c \<in> set (take n (drop i t))"
  shows "P c"
proof -
  have "take n (drop i t) = take n (takeWhile P (drop i t))"
    using assms(1) unfolding run_length_def
    by (metis min.absorb1 take_take takeWhile_eq_take)
  then have "c \<in> set (takeWhile P (drop i t))"
    using assms(2) by (metis in_set_takeD)
  then show ?thesis by (rule set_takeWhileD [THEN conjunct2])
qed

lemma run_length_le: "i + run_length P t i \<le> max i (length t)"
  unfolding run_length_def
  using length_takeWhile_le [of P "drop i t"] by simp

lemma digits_ends_mem:
  "k \<in> set (digits_ends u t i) \<longleftrightarrow> i < k \<and> k \<le> i + run_length (is_digit u) t i"
proof -
  have "set (digits_ends u t i) = (\<lambda>n. i + n) ` {1..<Suc (run_length (is_digit u) t i)}"
    by (simp add: digits_ends_def del: upt_Suc)
  moreover have "k \<in> (\<lambda>n. i + n) ` {1..<Suc (run_length (is_digit u) t i)}
      \<longleftrightarrow> i < k \<and> k \<le> i + run_length (is_digit u) t i"
  proof
    assume "i < k \<and> k \<le> i + run_length (is_digit u) t i"
    then have "k - i \<in> {1..<Suc (run_length (is_digit u) t i)}" "k = i + (k - i)" by auto
    then show "k \<in> (\<lambda>n. i + n) ` {1..<Suc (run_length (is_digit u) t i)}" by (rule rev_image_eqI)
  qed auto
  ultimately show ?thesis by simp
qed

lemma spaces_ends_mem:
  "q \<in> set (spaces_ends u t p) \<longleftrightarrow> p \<le> q \<and> q \<le> p + run_length (is_space u) t p"
proof -
  have "set (spaces_ends u t p) = (\<lambda>n. p + n) ` {0..<Suc (run_length (is_space u) t p)}"
    by (simp add: spaces_ends_def del: upt_Suc)
  moreover have "q \<in> (\<lambda>n. p + n) ` {0..<Suc (run_length (is_space u) t p)}
      \<longleftrightarrow> p \<le> q \<and> q \<le> p + run_length (is_space u) t p"
  proof
    assume "p \<le> q \<and> q \<le> p + run_length (is_space u) t p"
    then have "q - p \<in> {0..<Suc (run_length (is_space u) t p)}" "q = p + (q - p)" by auto
    then show "q \<in> (\<lambda>n. p + n) ` {0..<Suc (run_length (is_space u) t p)}" by (rule rev_image_eqI)
  qed auto
  ultimately show ?thesis by simp
qed

lemma match_at_Some: "match_at u t i = Some m \<Longrightarrow> m \<in> set (match_paths u t i)"
  by (auto simp: match_at_def split: list.splits)

lemma match_paths_mem:
  "(k, e) \<in> set (match_paths u t i) \<longleftrightarrow>
     k \<in> set (digits_ends u t i)
     \<and> (\<exists>p\<in>set (plus_ends t k). \<exists>q\<in>set (spaces_ends u t p). e \<in> set (unit_ends t q))"
  by (auto simp: match_paths_def)

lemma match_at_digits:
  assumes "match_at u t i = Some (k, e)" and "c \<in> set (slice t i k)"
  shows "is_digit u c"
proof -
  have "k \<in> set (digits_ends u t i)"
    using match_at_Some [OF assms(1)] by (simp add: match_paths_mem)
  then have "k - i \<le> run_length (is_digit u) t i" by (auto simp: digits_ends_mem)
  then show ?thesis using assms(2) unfolding slice_def by (rule take_run_all)
qed

lemma findall_from_mem:
  "x \<in> set (findall_from u t i0) \<Longrightarrow>
     \<exists>i k e. i0 \<le> i \<and> i \<le> length t \<and> match_at u t i = Some (k, e) \<and> x = slice t i k"
proof (induction u t i0 rule: findall_from.induct)
  case (1 u t i)
  show ?case
  proof (cases "length t < i")
    case True
    with "1.prems" show ?thesis by (simp add: findall_from.simps [of u t i])
  next
    case False
    show ?thesis
    proof (cases "match_at u t i")
      case None
      with False "1.prems" have "x \<in> set (findall_from u t (Suc i))"
        by (simp add: findall_from.simps [of u t i])
      from "1.IH"(1) [OF False None this]
      obtain i' k' e' where "Suc i \<le> i'" "i' \<le> length t"
        "match_at u t i' = Some (k', e')" "x = slice t i' k'" by blast
      moreover then have "i \<le> i'" by simp
      ultimately show ?thesis by blast
    next
      case (Some m)
      obtain k e where m: "m = (k, e)" by (cases m)
      from False Some m "1.prems"
      have "x = slice t i k \<or> x \<in> set (findall_from u t (if i < e then e else Suc i))"
        by (simp add: findall_from.simps [of u t i])
      then show ?thesis
      proof
        assume "x = slice t i k"
        with False Some m show ?thesis by (intro exI [of _ i] exI [of _ k] exI [of _ e]) simp
      next
        assume "x \<in> set (findall_from u t (if i < e then e else Suc i))"
        from "1.IH"(2) [OF False Some [unfolded m] refl this]
        obtain i' k' e' where "(if i < e then e else Suc i) \<le> i'" "i' \<le> length t"
          "match_at u t i' = Some (k', e')" "x = slice t i' k'" by blast
        moreover then have "i \<le> i'" by (simp split: if_splits)
        ultimately show ?thesis by blast
      qed
    qed
  qed
qed

lemma int_of_digits_foldl_nonneg:
  "0 \<le> a \<Longrightarrow> \<forall>c\<in>set ds. is_digit u c \<Longrightarrow> 0 \<le> foldl (\<lambda>a c. 10 * a + digit_value u c) a ds"
  by (induction ds arbitrary: a)
    (auto simp: is_digit_def digit_value_def split: char_class.splits)

lemma int_of_digits_nonneg: "\<forall>c\<in>set ds. is_digit u c \<Longrightarrow> 0 \<le> int_of_digits u ds"
  unfolding int_of_digits_def by (rule int_of_digits_foldl_nonneg) simp_all

lemma fold_max_ge: "(y::int) \<le> fold max ys y"
  by (induction ys arbitrary: y) (auto intro: order_trans [OF max.cobounded2])

lemma max_default_nonneg: "\<forall>x\<in>set xs. 0 \<le> x \<Longrightarrow> 0 \<le> max_default xs 0"
  by (cases xs) (auto simp: max_default_def intro: order_trans [OF _ fold_max_ge])

lemma xp_matches_nonneg: "x \<in> set (map (int_of_digits u) (xp_matches u t)) \<Longrightarrow> 0 \<le> x"
  unfolding xp_matches_def
  by (auto dest!: findall_from_mem intro!: int_of_digits_nonneg dest: match_at_digits)

lemma literal_at_nth:
  assumes "literal_at s t i" and "j < length s"
  shows "i + j < length t \<and> t ! (i + j) = s ! j"
proof -
  have eq: "take (length s) (drop i t) = s"
    using assms(1) by (simp add: literal_at_def slice_def)
  from arg_cong [OF eq, of length] have "length s \<le> length t - i"
    by simp
  with assms(2) have lt: "i + j < length t" by simp
  have "s ! j = take (length s) (drop i t) ! j" by (simp add: eq)
  also have "\<dots> = t ! (i + j)" using assms(2) lt by simp
  finally show ?thesis using lt by simp
qed

lemma search_skill_iff:
  "search_skill u skill t \<longleftrightarrow> (\<exists>i\<le>length t. skill_match_at u skill t i)"
  by (auto simp: search_skill_def list_ex_iff less_Suc_eq_le simp del: upt_Suc)

text \<open>c++ is found only where a word character follows it directly.\<close>

lemma cpp_needs_word_char_after:
  assumes "search_skill u (str ''c++'') t"
  shows "\<exists>i. literal_at (str ''c++'') t i \<and> i + 3 < length t \<and> is_word_char u (t ! (i + 3))"
proof -
  from assms obtain i where lit: "literal_at (str ''c++'') t i"
    and b0: "at_boundary u t (i + length (str ''c++''))"
    unfolding search_skill_iff skill_match_at_def by blast
  have "i + length (str ''c++'') = i + 3" by simp
  with b0 have b: "at_boundary u t (i + 3)" by metis
  from literal_at_nth [OF lit, of 2] have "i + 2 < length t" "t ! (i + 2) = 43"
    by simp_all
  then have "\<not> word_before u t (i + 3)"
    by (simp add: word_before_def is_word_char_def)
  with b have "word_at u t (i + 3)" by (simp add: at_boundary_def)
  with lit show ?thesis by (auto simp: word_at_def)
qed

lemma run_nth:
  assumes "i \<le> j" and "j < i + run_length P t i"
  shows "j < length t \<and> P (t ! j)"
proof -
  let ?xs = "drop i t"
  have n: "j - i < length (takeWhile P ?xs)"
    using assms by (simp add: run_length_def)
  also have "\<dots> \<le> length ?xs" by (rule length_takeWhile_le)
  finally have lt: "j < length t" using assms(1) by simp
  have "takeWhile P ?xs ! (j - i) \<in> set (takeWhile P ?xs)"
    using n by (rule nth_mem)
  then have "P (takeWhile P ?xs ! (j - i))" by (rule set_takeWhileD [THEN conjunct2])
  moreover have "takeWhile P ?xs ! (j - i) = ?xs ! (j - i)" using n by (rule takeWhile_nth)
  moreover have "?xs ! (j - i) = t ! j" using assms(1) lt by simp
  ultimately show ?thesis using lt by simp
qed

lemma run_length_ge:
  assumes "i \<le> k" and "k \<le> length t" and "\<forall>j. i \<le> j \<and> j < k \<longrightarrow> P (t ! j)"
  shows "k - i \<le> run_length P t i"
  unfolding run_length_def
proof (rule length_takeWhile_less_P_nth)
  fix j assume "j < k - i"
  then show "P (drop i t ! j)" using assms by simp
next
  show "k - i \<le> length (drop i t)" using assms by simp
qed

lemma all_in_iff:
  assumes "k \<le> length t"
  shows "all_in P t i k \<longleftrightarrow> (\<forall>j. i \<le> j \<and> j < k \<longrightarrow> P (t ! j))"
proof
  assume a: "all_in P t i k"
  show "\<forall>j. i \<le> j \<and> j < k \<longrightarrow> P (t ! j)"
  proof (intro allI impI)
    fix j assume j: "i \<le> j \<and> j < k"
    then have lt: "j - i < k - i" by arith
    then have "j - i < length (slice t i k)" using assms by (simp add: slice_def)
    with a have "P (slice t i k ! (j - i))" by (simp add: all_in_def list_all_length)
    moreover have "slice t i k ! (j - i) = t ! j" using lt j assms by (simp add: slice_def)
    ultimately show "P (t ! j)" by simp
  qed
next
  assume a: "\<forall>j. i \<le> j \<and> j < k \<longrightarrow> P (t ! j)"
  show "all_in P t i k"
    unfolding all_in_def list_all_length
  proof (intro allI impI)
    fix n assume "n < length (slice t i k)"
    then have n: "n < k - i" by (simp add: slice_def)
    then have "slice t i k ! n = t ! (i + n)" using assms by (simp add: slice_def)
    moreover have "P (t ! (i + n))" using a n by simp
    ultimately show "P (slice t i k ! n)" by simp
  qed
qed

lemma years_not_digit: "c \<in> set (str ''years'') \<Longrightarrow> \<not> is_digit u c"
  by (auto simp: is_digit_def)

lemma space_not_digit: "is_space u c \<Longrightarrow> \<not> is_digit u c"
  by (auto simp: is_digit_def is_space_def split: if_splits char_class.splits)

lemma plus_not_digit: "\<not> is_digit u 43"
  by (simp add: is_digit_def)

lemma literal_at_range:
  assumes "literal_at s t q" and "q \<le> j" and "j < q + length s"
  shows "j < length t \<and> t ! j \<in> set s"
  using literal_at_nth [OF assms(1), of "j - q"] assms(2,3) by auto

lemma unit_literal_not_digit:
  assumes "literal_at s t q" and "set s \<subseteq> set (str ''years'')" and "q \<le> j" and "j < q + length s"
  shows "j < length t \<and> \<not> is_digit u (t ! j)"
  using literal_at_range [OF assms(1,3,4)] assms(2) years_not_digit by blast

lemma literal_at_prefix: "literal_at (a @ b) t q \<Longrightarrow> literal_at a t q"
proof -
  assume "literal_at (a @ b) t q"
  then have "take (length a + length b) (drop q t) = a @ b"
    by (simp add: literal_at_def slice_def)
  from arg_cong [OF this, of "take (length a)"] show ?thesis
    by (simp add: literal_at_def slice_def min_def)
qed

lemma spec_unit_at_iff:
  "spec_unit_at t q \<longleftrightarrow> literal_at (str ''year'') t q \<or> literal_at (str ''yr'') t q"
  using literal_at_prefix [of "str ''year''" "str ''s''" t q] literal_at_prefix [of "str ''yr''" "str ''s''" t q]
  by (auto simp: spec_unit_at_def)

lemma opt_s_ends_mem:
  "e \<in> set (opt_s_ends t p) \<longleftrightarrow> e = p \<or> (e = p + 1 \<and> literal_at (str ''s'') t p)"
  by (auto simp: opt_s_ends_def)

lemma plus_ends_mem:
  "p \<in> set (plus_ends t k) \<longleftrightarrow> p = k \<or> (p = k + 1 \<and> literal_at (str ''+'') t k)"
  by (auto simp: plus_ends_def)

lemma unit_ends_nonempty:
  "unit_ends t q \<noteq> [] \<longleftrightarrow> literal_at (str ''year'') t q \<or> literal_at (str ''yr'') t q"
  by (auto simp: unit_ends_def opt_s_ends_def)

lemma unit_ends_span:
  assumes "e \<in> set (unit_ends t q)"
  shows "q < e \<and> (literal_at (str ''year'') t q \<or> literal_at (str ''yr'') t q)
         \<and> (\<forall>j. q \<le> j \<and> j < e \<longrightarrow> j < length t \<and> \<not> is_digit u (t ! j))"
proof -
  consider (year) "literal_at (str ''year'') t q" "e \<in> set (opt_s_ends t (q + 4))"
    | (yr) "literal_at (str ''yr'') t q" "e \<in> set (opt_s_ends t (q + 2))"
    using assms by (auto simp: unit_ends_def split: if_splits)
  then show ?thesis
  proof cases
    case year
    have a: "j < length t \<and> \<not> is_digit u (t ! j)" if "q \<le> j" "j < q + 4" for j
      using unit_literal_not_digit [OF year(1), of j] that by simp
    have b: "q + 4 < length t \<and> \<not> is_digit u (t ! (q + 4))" if "literal_at (str ''s'') t (q + 4)"
      using unit_literal_not_digit [OF that, of "q + 4"] by simp
    from year(2) have "e = q + 4 \<or> (e = q + 5 \<and> literal_at (str ''s'') t (q + 4))"
      by (auto simp: opt_s_ends_mem)
    then show ?thesis
    proof
      assume "e = q + 4"
      with a year(1) show ?thesis by auto
    next
      assume e: "e = q + 5 \<and> literal_at (str ''s'') t (q + 4)"
      have "j < length t \<and> \<not> is_digit u (t ! j)" if "q \<le> j" "j < q + 5" for j
      proof (cases "j = q + 4")
        case True with b e show ?thesis by simp
      next
        case False with that a [of j] show ?thesis by simp
      qed
      with e year(1) show ?thesis by auto
    qed
  next
    case yr
    have a: "j < length t \<and> \<not> is_digit u (t ! j)" if "q \<le> j" "j < q + 2" for j
      using unit_literal_not_digit [OF yr(1), of j] that by simp
    have b: "q + 2 < length t \<and> \<not> is_digit u (t ! (q + 2))" if "literal_at (str ''s'') t (q + 2)"
      using unit_literal_not_digit [OF that, of "q + 2"] by simp
    from yr(2) have "e = q + 2 \<or> (e = q + 3 \<and> literal_at (str ''s'') t (q + 2))"
      by (auto simp: opt_s_ends_mem)
    then show ?thesis
    proof
      assume "e = q + 2"
      with a yr(1) show ?thesis by auto
    next
      assume e: "e = q + 3 \<and> literal_at (str ''s'') t (q + 2)"
      have "j < length t \<and> \<not> is_digit u (t ! j)" if "q \<le> j" "j < q + 3" for j
      proof (cases "j = q + 2")
        case True with b e show ?thesis by simp
      next
        case False with that a [of j] show ?thesis by simp
      qed
      with e yr(1) show ?thesis by auto
    qed
  qed
qed

lemma match_path:
  assumes "match_at u t s = Some (k, e)"
  shows "\<exists>p q. s < k \<and> k \<le> s + run_length (is_digit u) t s
           \<and> (p = k \<or> (p = k + 1 \<and> literal_at (str ''+'') t k))
           \<and> p \<le> q \<and> q \<le> p + run_length (is_space u) t p \<and> e \<in> set (unit_ends t q)"
proof -
  from match_at_Some [OF assms] have k: "k \<in> set (digits_ends u t s)"
    and "\<exists>p\<in>set (plus_ends t k). \<exists>q\<in>set (spaces_ends u t p). e \<in> set (unit_ends t q)"
    unfolding match_paths_mem by simp_all
  then obtain p q where "p \<in> set (plus_ends t k)" "q \<in> set (spaces_ends u t p)"
    "e \<in> set (unit_ends t q)" by blast
  with k show ?thesis
    unfolding digits_ends_mem plus_ends_mem spaces_ends_mem
    by (intro exI [of _ p] exI [of _ q]) simp
qed

lemma match_span:
  assumes "match_at u t s = Some (k, e)"
  shows "s < k \<and> k \<le> e
     \<and> (\<forall>j. s \<le> j \<and> j < k \<longrightarrow> j < length t \<and> is_digit u (t ! j))
     \<and> (\<forall>j. k \<le> j \<and> j < e \<longrightarrow> j < length t \<and> \<not> is_digit u (t ! j))"
proof -
  from match_path [OF assms] obtain p q where sk: "s < k"
    and kr: "k \<le> s + run_length (is_digit u) t s"
    and p: "p = k \<or> (p = k + 1 \<and> literal_at (str ''+'') t k)"
    and pq: "p \<le> q" and qr: "q \<le> p + run_length (is_space u) t p"
    and e: "e \<in> set (unit_ends t q)" by blast
  note us = unit_ends_span [OF e, where u = u]
  have digits: "j < length t \<and> is_digit u (t ! j)" if "s \<le> j" "j < k" for j
    using run_nth [of s j "is_digit u" t] that kr by simp
  have nondigits: "j < length t \<and> \<not> is_digit u (t ! j)" if "k \<le> j" "j < e" for j
  proof -
    consider "j < p" | "p \<le> j" "j < q" | "q \<le> j" by linarith
    then show ?thesis
    proof cases
      case 1
      with p that have "j = k" "literal_at (str ''+'') t k" by auto
      with literal_at_nth [of "str ''+''" t k 0] show ?thesis by (simp add: plus_not_digit)
    next
      case 2
      with run_nth [of p j "is_space u" t] qr have "j < length t" "is_space u (t ! j)" by simp_all
      then show ?thesis using space_not_digit by blast
    next
      case 3
      with us that show ?thesis by simp
    qed
  qed
  from p pq us have "k \<le> e" by auto
  with sk digits nondigits show ?thesis by blast
qed

lemma spec_tail_iff:
  "list_ex (\<lambda>q. all_in (is_space u) t p q \<and> spec_unit_at t q) [p..<Suc (length t)]
     \<longleftrightarrow> (\<exists>q. p \<le> q \<and> q \<le> length t \<and> (\<forall>j. p \<le> j \<and> j < q \<longrightarrow> is_space u (t ! j))
            \<and> (literal_at (str ''year'') t q \<or> literal_at (str ''yr'') t q))"
proof -
  have "list_ex (\<lambda>q. all_in (is_space u) t p q \<and> spec_unit_at t q) [p..<Suc (length t)]
     \<longleftrightarrow> (\<exists>q. p \<le> q \<and> q \<le> length t \<and> all_in (is_space u) t p q \<and> spec_unit_at t q)"
    by (simp add: list_ex_iff Bex_def less_Suc_eq_le conj_assoc del: upt_Suc)
  also have "\<dots> \<longleftrightarrow> (\<exists>q. p \<le> q \<and> q \<le> length t
       \<and> (\<forall>j. p \<le> j \<and> j < q \<longrightarrow> is_space u (t ! j))
       \<and> (literal_at (str ''year'') t q \<or> literal_at (str ''yr'') t q))"
    by (simp add: all_in_iff spec_unit_at_iff cong: conj_cong)
  finally show ?thesis .
qed

lemma spec_occurrence_iff:
  "spec_occurrence u t i k \<longleftrightarrow>
     i < k \<and> k \<le> length t \<and> (\<forall>j. i \<le> j \<and> j < k \<longrightarrow> is_digit u (t ! j))
     \<and> (\<exists>p q. (p = k \<or> (p = k + 1 \<and> literal_at (str ''+'') t k)) \<and> p \<le> q \<and> q \<le> length t
           \<and> (\<forall>j. p \<le> j \<and> j < q \<longrightarrow> is_space u (t ! j))
           \<and> (literal_at (str ''year'') t q \<or> literal_at (str ''yr'') t q))"
proof -
  define Q where "Q = (\<lambda>p. \<exists>q. p \<le> q \<and> q \<le> length t
       \<and> (\<forall>j. p \<le> j \<and> j < q \<longrightarrow> is_space u (t ! j))
       \<and> (literal_at (str ''year'') t q \<or> literal_at (str ''yr'') t q))"
  have tail: "list_ex (\<lambda>q. all_in (is_space u) t p q \<and> spec_unit_at t q) [p..<Suc (length t)] = Q p"
    for p unfolding Q_def by (rule spec_tail_iff)
  have "list_ex Q (if literal_at (str ''+'') t k then [k, k + 1] else [k])
      \<longleftrightarrow> (\<exists>p. (p = k \<or> (p = k + 1 \<and> literal_at (str ''+'') t k)) \<and> Q p)"
    by (cases "literal_at (str ''+'') t k") auto
  then have "spec_occurrence u t i k \<longleftrightarrow>
     i < k \<and> k \<le> length t \<and> all_in (is_digit u) t i k
     \<and> (\<exists>p. (p = k \<or> (p = k + 1 \<and> literal_at (str ''+'') t k)) \<and> Q p)"
    unfolding spec_occurrence_def tail by simp
  also have "\<dots> \<longleftrightarrow> i < k \<and> k \<le> length t \<and> (\<forall>j. i \<le> j \<and> j < k \<longrightarrow> is_digit u (t ! j))
     \<and> (\<exists>p. (p = k \<or> (p = k + 1 \<and> literal_at (str ''+'') t k)) \<and> Q p)"
    by (simp add: all_in_iff cong: conj_cong)
  also have "\<dots> \<longleftrightarrow> i < k \<and> k \<le> length t \<and> (\<forall>j. i \<le> j \<and> j < k \<longrightarrow> is_digit u (t ! j))
     \<and> (\<exists>p q. (p = k \<or> (p = k + 1 \<and> literal_at (str ''+'') t k)) \<and> p \<le> q \<and> q \<le> length t
           \<and> (\<forall>j. p \<le> j \<and> j < q \<longrightarrow> is_space u (t ! j))
           \<and> (literal_at (str ''year'') t q \<or> literal_at (str ''yr'') t q))"
    unfolding Q_def by simp
  finally show ?thesis .
qed

lemma match_at_occurrence:
  assumes "match_at u t i = Some (k, e)"
  shows "spec_occurrence u t i k"
proof -
  from match_path [OF assms] obtain p q where ik: "i < k"
    and kr: "k \<le> i + run_length (is_digit u) t i"
    and p: "p = k \<or> (p = k + 1 \<and> literal_at (str ''+'') t k)"
    and pq: "p \<le> q" and qr: "q \<le> p + run_length (is_space u) t p"
    and e: "e \<in> set (unit_ends t q)" by blast
  from unit_ends_span [OF e] have unit: "literal_at (str ''year'') t q \<or> literal_at (str ''yr'') t q"
    by simp
  then have "q < length t"
    using literal_at_nth [of "str ''year''" t q 0] literal_at_nth [of "str ''yr''" t q 0] by auto
  moreover have "\<forall>j. i \<le> j \<and> j < k \<longrightarrow> is_digit u (t ! j)"
    using match_span [OF assms] by blast
  moreover have "k \<le> length t"
  proof -
    have "i \<le> k - 1" "k - 1 < i + run_length (is_digit u) t i" using ik kr by arith+
    then have "k - 1 < length t" using run_nth by blast
    then show ?thesis using ik by arith
  qed
  moreover have "\<forall>j. p \<le> j \<and> j < q \<longrightarrow> is_space u (t ! j)"
    using run_nth [of p _ "is_space u" t] qr by auto
  ultimately show ?thesis
    unfolding spec_occurrence_iff using ik p pq unit
    by (intro conjI exI [of _ p] exI [of _ q]) simp_all
qed

lemma occurrence_stop:
  assumes "spec_occurrence u t i k"
  shows "k < length t \<and> \<not> is_digit u (t ! k)"
proof -
  from assms obtain p q where p: "p = k \<or> (p = k + 1 \<and> literal_at (str ''+'') t k)"
    and pq: "p \<le> q" and sp: "\<forall>j. p \<le> j \<and> j < q \<longrightarrow> is_space u (t ! j)"
    and ql: "q \<le> length t"
    and unit: "literal_at (str ''year'') t q \<or> literal_at (str ''yr'') t q"
    unfolding spec_occurrence_iff by blast
  have uq: "q < length t \<and> \<not> is_digit u (t ! q)"
    using unit unit_literal_not_digit [of "str ''year''" t q q]
      unit_literal_not_digit [of "str ''yr''" t q q] by auto
  show ?thesis
  proof (cases "p = k")
    case True
    show ?thesis
    proof (cases "q = k")
      case True with uq show ?thesis by simp
    next
      case False
      with True pq have "k < q" by simp
      with True sp ql have "k < length t" "is_space u (t ! k)" by simp_all
      then show ?thesis using space_not_digit by blast
    qed
  next
    case False
    with p have "literal_at (str ''+'') t k" by simp
    with literal_at_nth [of "str ''+''" t k 0] show ?thesis by (simp add: plus_not_digit)
  qed
qed

lemma run_start:
  assumes "\<forall>j. i \<le> j \<and> j < k \<longrightarrow> is_digit u (t ! j)"
  shows "\<exists>i0\<le>i. (\<forall>j. i0 \<le> j \<and> j < k \<longrightarrow> is_digit u (t ! j))
           \<and> (i0 = 0 \<or> \<not> is_digit u (t ! (i0 - 1)))"
  using assms
proof (induction i)
  case 0
  then show ?case by blast
next
  case (Suc i)
  show ?case
  proof (cases "is_digit u (t ! i)")
    case True
    have "\<forall>j. i \<le> j \<and> j < k \<longrightarrow> is_digit u (t ! j)"
    proof (intro allI impI)
      fix j assume j: "i \<le> j \<and> j < k"
      show "is_digit u (t ! j)"
      proof (cases "j = i")
        case True with \<open>is_digit u (t ! i)\<close> show ?thesis by simp
      next
        case False with j Suc.prems show ?thesis by simp
      qed
    qed
    from Suc.IH [OF this] obtain i0 where "i0 \<le> i"
      "\<forall>j. i0 \<le> j \<and> j < k \<longrightarrow> is_digit u (t ! j)" "i0 = 0 \<or> \<not> is_digit u (t ! (i0 - 1))"
      by blast
    then show ?thesis by (intro exI [of _ i0]) simp
  next
    case False
    with Suc.prems show ?thesis by (intro exI [of _ "Suc i"]) simp
  qed
qed

lemma run_length_exact:
  assumes "i \<le> k" and "k < length t" and "\<forall>j. i \<le> j \<and> j < k \<longrightarrow> P (t ! j)"
    and "\<not> P (t ! k)"
  shows "run_length P t i = k - i"
proof (rule antisym)
  show "k - i \<le> run_length P t i" using assms by (intro run_length_ge) simp_all
  show "run_length P t i \<le> k - i"
  proof (rule ccontr)
    assume "\<not> run_length P t i \<le> k - i"
    then have "k < i + run_length P t i" using assms(1) by arith
    from run_nth [OF assms(1) this] assms(4) show False by simp
  qed
qed

lemma digits_ends_head:
  assumes "0 < n" and "run_length (is_digit u) t i = n"
  shows "\<exists>rest. digits_ends u t i = (i + n) # rest"
proof -
  have "[1..<Suc n] = [1..<n] @ [n]" using assms(1) by simp
  then show ?thesis by (simp add: digits_ends_def assms(2) del: upt_Suc)
qed

lemma match_at_run:
  assumes occ: "spec_occurrence u t i k"
    and run: "i0 \<le> i" "\<forall>j. i0 \<le> j \<and> j < k \<longrightarrow> is_digit u (t ! j)"
  shows "\<exists>e. match_at u t i0 = Some (k, e)"
proof -
  from occ obtain p q where ik: "i < k"
    and p: "p = k \<or> (p = k + 1 \<and> literal_at (str ''+'') t k)"
    and pq: "p \<le> q" and ql: "q \<le> length t"
    and sp: "\<forall>j. p \<le> j \<and> j < q \<longrightarrow> is_space u (t ! j)"
    and unit: "literal_at (str ''year'') t q \<or> literal_at (str ''yr'') t q"
    unfolding spec_occurrence_iff by blast
  from occurrence_stop [OF occ] have stop: "k < length t" "\<not> is_digit u (t ! k)" by simp_all
  have i0k: "i0 < k" using run(1) ik by simp
  then have "run_length (is_digit u) t i0 = k - i0"
    using stop run(2) by (intro run_length_exact) simp_all
  with digits_ends_head [of "k - i0" u t i0] i0k
  obtain rest where de: "digits_ends u t i0 = k # rest" by auto
  define g where "g = (\<lambda>k. concat (map (\<lambda>p. concat (map (\<lambda>q. map (\<lambda>e. (k, e)) (unit_ends t q))
        (spaces_ends u t p))) (plus_ends t k)))"
  have mp: "match_paths u t i0 = g k @ concat (map g rest)"
    by (simp add: match_paths_def de g_def)
  have pm: "p \<in> set (plus_ends t k)" using p by (simp add: plus_ends_mem)
  have "q - p \<le> run_length (is_space u) t p" using pq ql sp by (intro run_length_ge) simp_all
  then have qm: "q \<in> set (spaces_ends u t p)" using pq by (simp add: spaces_ends_mem)
  from unit obtain e where em: "e \<in> set (unit_ends t q)"
    using unit_ends_nonempty [of t q] by (cases "unit_ends t q") auto
  have "(k, e) \<in> set (g k)" unfolding g_def using pm qm em by auto
  then obtain m ms where gk: "g k = m # ms" by (cases "g k") auto
  have "fst m = k"
  proof -
    have "m \<in> set (g k)" by (simp add: gk)
    then show ?thesis unfolding g_def by auto
  qed
  then have "match_at u t i0 = Some (k, snd m)"
    by (simp add: match_at_def mp gk) (metis prod.collapse)
  then show ?thesis by blast
qed

lemma no_jump:
  assumes m: "match_at u t s = Some (k', e')" and "s < i0" and "i0 < length t"
    and "is_digit u (t ! i0)" and "\<not> is_digit u (t ! (i0 - 1))"
  shows "e' \<le> i0"
proof (rule ccontr)
  assume "\<not> e' \<le> i0"
  then have e: "i0 < e'" by simp
  note sp = match_span [OF m]
  have "k' \<le> i0 - 1"
  proof (rule ccontr)
    assume "\<not> k' \<le> i0 - 1"
    then have "s \<le> i0 - 1 \<and> i0 - 1 < k'" using assms(2) by arith
    with sp have "is_digit u (t ! (i0 - 1))" by blast
    with assms(5) show False by simp
  qed
  then have "k' \<le> i0" by arith
  with e sp have "\<not> is_digit u (t ! i0)" by blast
  with assms(4) show False by simp
qed

lemma findall_reaches:
  "match_at u t i0 = Some (k, e) \<Longrightarrow> i0 = 0 \<or> \<not> is_digit u (t ! (i0 - 1)) \<Longrightarrow> s \<le> i0
     \<Longrightarrow> slice t i0 k \<in> set (findall_from u t s)"
proof (induction u t s rule: findall_from.induct)
  case (1 u t s)
  note m = "1.prems"(1) and start = "1.prems"(2) and le = "1.prems"(3)
  from match_span [OF m] have "i0 < k"
    and "\<forall>j. i0 \<le> j \<and> j < k \<longrightarrow> j < length t \<and> is_digit u (t ! j)" by simp_all
  then have "i0 < length t \<and> is_digit u (t ! i0)" by blast
  then have i0t: "i0 < length t" and d0: "is_digit u (t ! i0)" by simp_all
  then have nlt: "\<not> length t < s" using le by simp
  show ?case
  proof (cases "s = i0")
    case True
    then show ?thesis using m nlt by (simp add: findall_from.simps [of u t i0])
  next
    case False
    with le have lt: "s < i0" by simp
    then have nd: "\<not> is_digit u (t ! (i0 - 1))" using start by auto
    show ?thesis
    proof (cases "match_at u t s")
      case None
      from lt have "Suc s \<le> i0" by simp
      from "1.IH"(1) [OF nlt None m start this]
      show ?thesis using None nlt by (simp add: findall_from.simps [of u t s])
    next
      case (Some m')
      obtain k' e' where mk: "m' = (k', e')" by (cases m')
      from match_span [OF Some [unfolded mk]] have se: "s < e'" by simp
      from no_jump [OF Some [unfolded mk] lt i0t d0 nd] have "e' \<le> i0" .
      with se have "(if s < e' then e' else Suc s) \<le> i0" by simp
      from "1.IH"(2) [OF nlt Some [unfolded mk] refl m start this]
      show ?thesis using Some mk nlt by (simp add: findall_from.simps [of u t s])
    qed
  qed
qed

lemma digits_foldl_mono:
  "a \<le> b \<Longrightarrow> foldl (\<lambda>a c. 10 * a + digit_value u c) a ds
           \<le> foldl (\<lambda>a c. 10 * a + digit_value u c) b ds"
  by (induction ds arbitrary: a b) simp_all

lemma int_of_digits_suffix:
  assumes "\<forall>c\<in>set xs. is_digit u c"
  shows "int_of_digits u ys \<le> int_of_digits u (xs @ ys)"
proof -
  have "0 \<le> foldl (\<lambda>a c. 10 * a + digit_value u c) 0 xs"
    using assms by (intro int_of_digits_foldl_nonneg) simp_all
  then show ?thesis unfolding int_of_digits_def foldl_append by (rule digits_foldl_mono)
qed

lemma slice_split:
  assumes "i0 \<le> i" and "i \<le> k"
  shows "slice t i0 k = slice t i0 i @ slice t i k"
proof -
  have "k - i0 = (i - i0) + (k - i)" using assms by arith
  then have "take (k - i0) (drop i0 t)
      = take (i - i0) (drop i0 t) @ take (k - i) (drop (i - i0) (drop i0 t))"
    by (simp only: take_add)
  then show ?thesis using assms by (simp add: slice_def)
qed

lemma spec_integers_set:
  "set (spec_integers u t) =
     (\<Union>i\<in>{0..<length t}. (\<lambda>k. int_of_digits u (slice t i k))
        ` {k \<in> {Suc i..<Suc (length t)}. spec_occurrence u t i k})"
  unfolding spec_integers_def by (simp only: set_concat set_map set_filter set_upt image_image)

lemma spec_integers_mem:
  "v \<in> set (spec_integers u t)
     \<longleftrightarrow> (\<exists>i k. spec_occurrence u t i k \<and> v = int_of_digits u (slice t i k))"
proof
  assume "v \<in> set (spec_integers u t)"
  then obtain i k where "spec_occurrence u t i k" "v = int_of_digits u (slice t i k)"
    unfolding spec_integers_set by blast
  then show "\<exists>i k. spec_occurrence u t i k \<and> v = int_of_digits u (slice t i k)" by blast
next
  assume "\<exists>i k. spec_occurrence u t i k \<and> v = int_of_digits u (slice t i k)"
  then obtain i k where occ: "spec_occurrence u t i k" and v: "v = int_of_digits u (slice t i k)"
    by blast
  from occ have "i < k \<and> k \<le> length t" by (simp add: spec_occurrence_iff)
  then have "i \<in> {0..<length t}" "k \<in> {Suc i..<Suc (length t)}" by auto
  with occ v show "v \<in> set (spec_integers u t)"
    unfolding spec_integers_set by blast
qed

lemma code_matches_sound:
  assumes "m \<in> set (xp_matches u t)"
  shows "\<exists>i k. spec_occurrence u t i k \<and> m = slice t i k"
proof -
  from assms have "m \<in> set (findall_from u t 0)" by (simp add: xp_matches_def)
  with findall_from_mem [of m u t 0] obtain i k e where "match_at u t i = Some (k, e)"
    "m = slice t i k" by blast
  with match_at_occurrence show ?thesis by blast
qed

lemma code_matches_complete:
  assumes occ: "spec_occurrence u t i k"
  shows "\<exists>i0\<le>i. slice t i0 k \<in> set (xp_matches u t)
           \<and> (\<forall>j. i0 \<le> j \<and> j < k \<longrightarrow> is_digit u (t ! j))"
proof -
  from occ have dig: "\<forall>j. i \<le> j \<and> j < k \<longrightarrow> is_digit u (t ! j)"
    unfolding spec_occurrence_iff by simp
  from run_start [OF dig] obtain i0 where i0: "i0 \<le> i"
    and dig0: "\<forall>j. i0 \<le> j \<and> j < k \<longrightarrow> is_digit u (t ! j)"
    and start: "i0 = 0 \<or> \<not> is_digit u (t ! (i0 - 1))" by blast
  from match_at_run [OF occ i0 dig0] obtain e where m: "match_at u t i0 = Some (k, e)" by blast
  from findall_reaches [OF m start, of 0]
  have "slice t i0 k \<in> set (xp_matches u t)" by (simp add: xp_matches_def)
  with i0 dig0 show ?thesis by blast
qed

lemma code_integers_sound:
  assumes "x \<in> set (map (int_of_digits u) (xp_matches u t))"
  shows "x \<in> set (spec_integers u t)"
proof -
  from assms obtain m where "m \<in> set (xp_matches u t)" "x = int_of_digits u m" by auto
  with code_matches_sound [of m u t] show ?thesis unfolding spec_integers_mem by blast
qed

lemma code_integers_complete:
  assumes "v \<in> set (spec_integers u t)"
  shows "\<exists>x\<in>set (map (int_of_digits u) (xp_matches u t)). v \<le> x"
proof -
  from assms obtain i k where occ: "spec_occurrence u t i k"
    and v: "v = int_of_digits u (slice t i k)" unfolding spec_integers_mem by blast
  from occ have ik: "i < k" and kl: "k \<le> length t"
    unfolding spec_occurrence_iff by simp_all
  from code_matches_complete [OF occ] obtain i0 where i0: "i0 \<le> i"
    and mem: "slice t i0 k \<in> set (xp_matches u t)"
    and dig0: "\<forall>j. i0 \<le> j \<and> j < k \<longrightarrow> is_digit u (t ! j)" by blast
  have "all_in (is_digit u) t i0 i"
    using dig0 ik kl by (simp add: all_in_iff)
  then have "\<forall>c\<in>set (slice t i0 i). is_digit u c" by (simp add: all_in_def list_all_iff)
  from int_of_digits_suffix [OF this, of "slice t i k"] slice_split [of i0 i k t] i0 ik
  have "v \<le> int_of_digits u (slice t i0 k)" by (simp add: v)
  with mem show ?thesis by auto
qed

lemma max_default_Max:
  assumes "\<forall>x\<in>set xs. 0 \<le> x"
  shows "max_default xs 0 = Max (insert 0 (set xs))"
proof (cases xs)
  case Nil
  then show ?thesis by (simp add: max_default_def)
next
  case (Cons y ys)
  then have "max_default xs 0 = Max (set xs)"
    using Max.set_eq_fold [of y ys] by (simp add: max_default_def)
  moreover have "0 \<le> Max (set xs)" using assms Cons by (simp add: Max_ge_iff)
  ultimately show ?thesis using Cons by (simp add: max_def)
qed

lemma fold_max_Max: "fold max vs (0::int) = Max (insert 0 (set vs))"
  using Max.set_eq_fold [of 0 vs] by simp

lemma Max_mutual:
  fixes A B :: "int set"
  assumes "finite A" "finite B" "\<forall>a\<in>A. \<exists>b\<in>B. a \<le> b" "\<forall>b\<in>B. \<exists>a\<in>A. b \<le> a"
  shows "Max (insert 0 A) = Max (insert 0 B)"
proof (rule antisym)
  show "Max (insert 0 A) \<le> Max (insert 0 B)"
    using assms by (subst Max_le_iff) (auto simp: Max_ge_iff)
  show "Max (insert 0 B) \<le> Max (insert 0 A)"
    using assms by (subst Max_le_iff) (auto simp: Max_ge_iff)
qed

lemma code_experience_is_spec:
  "max_default (map (int_of_digits u) (xp_matches u t)) 0 = spec_experience u t"
proof -
  let ?xs = "map (int_of_digits u) (xp_matches u t)"
  let ?vs = "spec_integers u t"
  have "max_default ?xs 0 = Max (insert 0 (set ?xs))"
    using xp_matches_nonneg by (intro max_default_Max) blast
  also have "\<dots> = Max (insert 0 (set ?vs))"
    using code_integers_sound [of _ u t] code_integers_complete [of _ u t]
    by (intro Max_mutual) blast+
  also have "\<dots> = spec_experience u t"
    by (simp add: spec_experience_def fold_max_Max)
  finally show ?thesis .
qed

lemma long_occurrence_iff:
  "long_occurrence u t \<longleftrightarrow> (\<exists>i k. spec_occurrence u t i k \<and> int_max_str_digits < k - i)"
proof
  assume "long_occurrence u t"
  then show "\<exists>i k. spec_occurrence u t i k \<and> int_max_str_digits < k - i"
    unfolding long_occurrence_def list_ex_iff by blast
next
  assume "\<exists>i k. spec_occurrence u t i k \<and> int_max_str_digits < k - i"
  then obtain i k where occ: "spec_occurrence u t i k" and l: "int_max_str_digits < k - i"
    by blast
  from occ have "i < k \<and> k \<le> length t" by (simp add: spec_occurrence_iff)
  then have "i \<in> set [0..<length t]" "k \<in> set [Suc i..<Suc (length t)]" by auto
  with occ l show "long_occurrence u t"
    unfolding long_occurrence_def list_ex_iff by blast
qed

lemma long_match_iff:
  "(\<exists>m\<in>set (xp_matches u t). int_max_str_digits < length m) \<longleftrightarrow> long_occurrence u t"
proof
  assume "\<exists>m\<in>set (xp_matches u t). int_max_str_digits < length m"
  then obtain m where m: "m \<in> set (xp_matches u t)" and l: "int_max_str_digits < length m"
    by blast
  from code_matches_sound [OF m] obtain i k where occ: "spec_occurrence u t i k"
    and eq: "m = slice t i k" by blast
  from occ have "k \<le> length t" by (simp add: spec_occurrence_iff)
  then have "length m = k - i" by (simp add: eq slice_def)
  with occ l show "long_occurrence u t" unfolding long_occurrence_iff by auto
next
  assume "long_occurrence u t"
  then obtain i k where occ: "spec_occurrence u t i k" and l: "int_max_str_digits < k - i"
    unfolding long_occurrence_iff by blast
  from occ have kl: "k \<le> length t" by (simp add: spec_occurrence_iff)
  from code_matches_complete [OF occ] obtain i0 where i0: "i0 \<le> i"
    and mem: "slice t i0 k \<in> set (xp_matches u t)" by blast
  have "length (slice t i0 k) = k - i0" using kl by (simp add: slice_def)
  with i0 l have "int_max_str_digits < length (slice t i0 k)" by simp
  with mem show "\<exists>m\<in>set (xp_matches u t). int_max_str_digits < length m" by blast
qed

lemma converted_eq:
  "converted u ms =
     (if \<exists>m\<in>set ms. int_max_str_digits < length m then Inl ValueError
      else Inr (map (int_of_digits u) ms))"
  by (induction ms) (auto simp: py_int_def)

lemma extract_resume_features_spec:
  "extract_resume_features u text =
     (if long_occurrence u (lower u text) then Inl ValueError
      else Inr \<lparr>skills = detected_skills u (lower u text),
                experience = spec_experience u (lower u text)\<rparr>)"
  using long_match_iff [of u "lower u text"]
  by (simp add: extract_resume_features_def Let_def converted_eq code_experience_is_spec)

lemma detected_skills_invariant:
  "set (detected_skills u t) \<subseteq> set SKILL_KEYWORDS \<and> distinct (detected_skills u t)
   \<and> sorted (detected_skills u t)"
  by (auto simp: detected_skills_def)

lemma spec_experience_nonneg: "0 \<le> spec_experience u t"
  unfolding spec_experience_def by (rule fold_max_ge)

section \<open>The feature extractor: what every result satisfies\<close>

lemma lower_fixed:
  assumes "\<forall>c\<in>set t. c < 65 \<or> (90 < c \<and> c < 192)"
  shows "lower u t = t"
proof -
  have "list_all (\<lambda>c. c < 256) t" using assms by (auto simp: list_all_iff)
  moreover have "map lower_latin1 t = t"
    using assms by (intro map_idI) (auto simp: lower_latin1_def)
  ultimately show ?thesis by (simp add: lower_def)
qed

lemma long_integer_raises:
  assumes ds: "\<forall>c\<in>set ds. 48 \<le> c \<and> c \<le> 57" and len: "int_max_str_digits < length ds"
    and tail: "tail = str '' years'' \<or> tail = str ''yrs''"
  shows "extract_resume_features u (ds @ tail) = Inl ValueError"
proof -
  let ?t = "ds @ tail"
  let ?k = "length ds"
  have low: "lower u ?t = ?t" using ds tail by (intro lower_fixed) auto
  have dig: "\<forall>j. 0 \<le> j \<and> j < ?k \<longrightarrow> is_digit u (?t ! j)"
  proof (intro allI impI)
    fix j assume j: "0 \<le> j \<and> j < ?k"
    then have "ds ! j \<in> set ds" by simp
    with ds have "48 \<le> ds ! j \<and> ds ! j \<le> 57" by blast
    with j show "is_digit u (?t ! j)" by (simp add: nth_append is_digit_def)
  qed
  have rest: "\<exists>q. ?k \<le> q \<and> q \<le> length ?t \<and> (\<forall>j. ?k \<le> j \<and> j < q \<longrightarrow> is_space u (?t ! j))
       \<and> (literal_at (str ''year'') ?t q \<or> literal_at (str ''yr'') ?t q)"
    using tail
  proof
    assume t: "tail = str '' years''"
    have "\<forall>j. ?k \<le> j \<and> j < Suc ?k \<longrightarrow> is_space u (?t ! j)"
      by (auto simp: t less_Suc_eq nth_append is_space_def)
    moreover have "literal_at (str ''year'') ?t (Suc ?k)"
      by (simp add: t literal_at_def slice_def)
    ultimately show ?thesis by (intro exI [of _ "Suc ?k"]) (simp add: t)
  next
    assume t: "tail = str ''yrs''"
    have "literal_at (str ''yr'') ?t ?k"
      by (simp add: t literal_at_def slice_def)
    then show ?thesis by (intro exI [of _ ?k]) auto
  qed
  have "0 < ?k" using len by (cases ds) simp_all
  with dig rest have "spec_occurrence u ?t 0 ?k"
    unfolding spec_occurrence_iff by auto
  with len have "long_occurrence u ?t"
    unfolding long_occurrence_iff by (intro exI [of _ 0] exI [of _ ?k]) simp
  then show ?thesis by (simp add: extract_resume_features_spec low)
qed

lemma short_text_returns:
  assumes "length t \<le> int_max_str_digits"
  shows "\<not> long_occurrence u t"
proof
  assume "long_occurrence u t"
  then obtain i k where "spec_occurrence u t i k" "int_max_str_digits < k - i"
    unfolding long_occurrence_iff by blast
  then have "k \<le> length t" "int_max_str_digits < k" by (simp_all add: spec_occurrence_iff)
  with assms show False by simp
qed

text \<open>
  Claim C3, as stated: every text yields a result with these properties. It fails for
  the text of 4301 nines followed by " years": the conversion of the match raises
  \<^verbatim>\<open>ValueError\<close> and the function returns nothing.
\<close>

theorem extract_resume_features_long_integer:
  "extract_resume_features plain_db (replicate 4301 57 @ str '' years'') = Inl ValueError"
  by (rule long_integer_raises) (simp_all add: int_max_str_digits_def)

text \<open>
  Claim C3, amended. For every text in whose lower-cased form no integer followed by
  the unit has more than 4300 digits, \<^verbatim>\<open>extract_resume_features\<close> returns a result:
  its skills are drawn from the fixed vocabulary, listed without duplicates in sorted
  order, and its experience is a non-negative integer. For every other text it raises
  \<^verbatim>\<open>ValueError\<close>.
\<close>

theorem extract_resume_features_invariant:
  "(if long_occurrence u (lower u text) then extract_resume_features u text = Inl ValueError
    else \<exists>f. extract_resume_features u text = Inr f
           \<and> set (skills f) \<subseteq> set SKILL_KEYWORDS \<and> distinct (skills f) \<and> sorted (skills f)
           \<and> 0 \<le> experience f)"
  using detected_skills_invariant [of u "lower u text"] spec_experience_nonneg [of u "lower u text"]
  by (simp add: extract_resume_features_spec)

lemma example_lower_length:
  "length (lower plain_db (str ''5 years of Python and SQL'')) = 25"
  by code_simp

lemma example_features:
  "extract_resume_features plain_db (str ''5 years of Python and SQL'')
     = Inr \<lparr>skills = [str ''python'', str ''sql''], experience = 5\<rparr>"
  by code_simp

theorem extract_resume_features_invariant_witness:
  "\<not> long_occurrence plain_db (lower plain_db (str ''5 years of Python and SQL''))
   \<and> extract_resume_features plain_db (str ''5 years of Python and SQL'')
       = Inr \<lparr>skills = [str ''python'', str ''sql''], experience = 5\<rparr>
   \<and> set [str ''python'', str ''sql''] \<subseteq> set SKILL_KEYWORDS
   \<and> distinct [str ''python'', str ''sql''] \<and> sorted [str ''python'', str ''sql'']"
proof -
  have a: "\<not> long_occurrence plain_db (lower plain_db (str ''5 years of Python and SQL''))"
    using example_lower_length by (intro short_text_returns) (simp add: int_max_str_digits_def)
  from extract_resume_features_invariant [of plain_db "str ''5 years of Python and SQL''"] a
    example_features
  show ?thesis by (simp add: SKILL_KEYWORDS_def)
qed

section \<open>Skill detection: word boundaries\<close>

lemma cpp_text: "extract_resume_features u (str ''I know C++ and Java'')
     = Inr \<lparr>skills = [str ''java''], experience = 0\<rparr>"
  by code_simp

lemma cpp_digit_text: "extract_resume_features u (str ''C++11 and C#'')
     = Inr \<lparr>skills = [str ''c++''], experience = 0\<rparr>"
  by code_simp

lemma reactive_text: "extract_resume_features u (str ''reactive programming'')
     = Inr \<lparr>skills = [], experience = 0\<rparr>"
  by code_simp

text \<open>
  Claim C1, at failing inputs. The vocabulary holds \<open>c++\<close>, but the pattern ends in
  \<^verbatim>\<open>\b\<close>, which after a plus sign needs a word character to follow. In the text
  "I know C++ and Java" a space follows, and the detected skills are \<open>java\<close> alone; in
  "C++11 and C#" a digit follows, and \<open>c++\<close> is detected, \<open>c#\<close> is not. The other half
  of the claim holds at its example: "reactive programming" does not yield \<open>react\<close>.
\<close>

theorem cpp_skill_not_detected:
  "str ''c++'' \<in> set SKILL_KEYWORDS
   \<and> extract_resume_features u (str ''I know C++ and Java'')
       = Inr \<lparr>skills = [str ''java''], experience = 0\<rparr>
   \<and> extract_resume_features u (str ''C++11 and C#'')
       = Inr \<lparr>skills = [str ''c++''], experience = 0\<rparr>
   \<and> extract_resume_features u (str ''reactive programming'')
       = Inr \<lparr>skills = [], experience = 0\<rparr>"
  using cpp_text [of u] cpp_digit_text [of u] reactive_text [of u]
  by (simp add: SKILL_KEYWORDS_def)

section \<open>Experience: the matcher against the specification\<close>

lemma ex1: "extract_resume_features u (str ''3 years'') = Inr \<lparr>skills = [], experience = 3\<rparr>"
  by code_simp

lemma ex2: "extract_resume_features u (str ''7+ years of experience'')
     = Inr \<lparr>skills = [], experience = 7\<rparr>"
  by code_simp

lemma ex3: "extract_resume_features u (str ''Experienced since 2015'')
     = Inr \<lparr>skills = [], experience = 0\<rparr>"
  by code_simp

lemma ex4: "extract_resume_features u (str ''2 yrs, 5 years'')
     = Inr \<lparr>skills = [], experience = 5\<rparr>"
  by code_simp

text \<open>
  Claim C2, as stated: for every text the experience returned is the largest integer
  found. It fails for the text of 4301 zeros followed by "yrs": the largest integer
  is \<open>0\<close>, but the conversion raises \<^verbatim>\<open>ValueError\<close> and no experience is returned.
\<close>

theorem experience_long_integer:
  "extract_resume_features plain_db (replicate 4301 48 @ str ''yrs'') = Inl ValueError"
  by (rule long_integer_raises) (simp_all add: int_max_str_digits_def)

text \<open>
  Claim C2, amended. For every text in whose lower-cased form no integer followed by
  the unit has more than 4300 digits, the experience that \<^verbatim>\<open>extract_resume_features\<close>
  returns is the largest integer over all occurrences of an integer, optionally
  followed by a plus sign, then optional whitespace, then "year(s)" or "yr(s)", and \<open>0\<close>
  when there is no occurrence; for every other text the function raises
  \<^verbatim>\<open>ValueError\<close>. The four examples of the specification give 3, 7, 0 and 5.
\<close>

theorem experience_is_largest_occurrence:
  "(if long_occurrence u (lower u text) then extract_resume_features u text = Inl ValueError
    else \<exists>f. extract_resume_features u text = Inr f
           \<and> experience f = spec_experience u (lower u text))
   \<and> extract_resume_features u (str ''3 years'') = Inr \<lparr>skills = [], experience = 3\<rparr>
   \<and> extract_resume_features u (str ''7+ years of experience'')
       = Inr \<lparr>skills = [], experience = 7\<rparr>
   \<and> extract_resume_features u (str ''Experienced since 2015'')
       = Inr \<lparr>skills = [], experience = 0\<rparr>
   \<and> extract_resume_features u (str ''2 yrs, 5 years'')
       = Inr \<lparr>skills = [], experience = 5\<rparr>"
  using ex1 [of u] ex2 [of u] ex3 [of u] ex4 [of u]
  by (simp add: extract_resume_features_spec)

lemma example2_lower_length: "length (lower plain_db (str ''2 yrs, 5 years'')) = 14"
  by code_simp

lemma example2_spec: "spec_experience plain_db (lower plain_db (str ''2 yrs, 5 years'')) = 5"
  by code_simp

theorem experience_is_largest_occurrence_witness:
  "\<not> long_occurrence plain_db (lower plain_db (str ''2 yrs, 5 years''))
   \<and> extract_resume_features plain_db (str ''2 yrs, 5 years'')
       = Inr \<lparr>skills = [], experience = 5\<rparr>
   \<and> spec_experience plain_db (lower plain_db (str ''2 yrs, 5 years'')) = 5"
proof -
  have a: "\<not> long_occurrence plain_db (lower plain_db (str ''2 yrs, 5 years''))"
    using example2_lower_length by (intro short_text_returns) (simp add: int_max_str_digits_def)
  from experience_is_largest_occurrence [of plain_db "str ''2 yrs, 5 years''"] a example2_spec
  show ?thesis by simp
qed

section \<open>Fit scoring: the denominators\<close>

lemma round_pos_error: "round_pos n d = Inl err \<Longrightarrow> err = OverflowError"
  by (auto simp: round_pos_def Let_def split: if_splits)

lemma round_frac_error: "round_frac n d = Inl err \<Longrightarrow> err = OverflowError"
  by (auto simp: round_frac_def split: if_splits sum.splits double.splits dest: round_pos_error)

lemma round_dyadic_error: "round_dyadic m e = Inl err \<Longrightarrow> err = OverflowError"
  by (auto simp: round_dyadic_def split: if_splits dest: round_frac_error)

lemma dbl_mul_error: "dbl_mul x y = Inl err \<Longrightarrow> err = OverflowError"
  by (cases x; cases y) (auto dest: round_dyadic_error)

lemma dbl_add_error: "dbl_add x y = Inl err \<Longrightarrow> err = OverflowError"
  by (cases x; cases y) (auto simp: Let_def dest: round_dyadic_error)

lemma py_truediv_error:
  "py_truediv a b = Inl err \<Longrightarrow> (b = 0 \<and> err = ZeroDivisionError) \<or> (b \<noteq> 0 \<and> err = OverflowError)"
  by (auto simp: py_truediv_def split: if_splits dest: round_frac_error)

lemma skills_denominator_nonzero: "skills_denominator job_features \<noteq> 0"
  by (simp add: skills_denominator_def)

lemma xp_job_nonzero: "xp_job job_features \<noteq> 0"
  by (simp add: xp_job_def)

lemma fit_percent_error: "fit_percent res_features job_features = Inl err \<Longrightarrow> err = OverflowError"
  using skills_denominator_nonzero [of job_features] xp_job_nonzero [of job_features]
  by (auto simp: fit_percent_def split: sum.splits
        dest: py_truediv_error dbl_mul_error dbl_add_error)

lemma zero_coverage:
  "py_truediv 0 1 = Inr (Dbl 0 0)" "round_dyadic 0 e = Inr (Dbl 0 0)"
  by (simp_all add: py_truediv_def round_frac_def round_dyadic_def)

text \<open>
  Claim C5. Fit scoring never divides by zero: both denominators are non-zero for every
  pair of feature sets, so \<^verbatim>\<open>ZeroDivisionError\<close> is not among the outcomes. A job
  that requires no experience has the denominator \<open>1\<close>; a job with no skills has the
  denominator \<open>1\<close> and a coverage contribution of zero.
\<close>

theorem fit_percent_no_division_by_zero:
  "skills_denominator job_features \<noteq> 0
   \<and> xp_job job_features \<noteq> 0
   \<and> fit_percent res_features job_features \<noteq> Inl ZeroDivisionError
   \<and> (experience job_features = 0 \<longrightarrow> xp_job job_features = 1)
   \<and> (skills job_features = [] \<longrightarrow>
        skills_denominator job_features = 1
        \<and> py_truediv (int (common_count res_features job_features))
             (skills_denominator job_features) = Inr (Dbl 0 0)
        \<and> dbl_mul (Dbl 0 0) (Dbl 70 0) = Inr (Dbl 0 0))"
  using fit_percent_error [of res_features job_features ZeroDivisionError]
  by (auto simp: skills_denominator_def xp_job_def common_count_def zero_coverage)

lemmas dbl_eval = py_truediv_def round_frac_def round_pos_def quantum_exp_def floor_log2_def
  pow2_le_def round_half_even_def round_dyadic_def py_min_def Let_def

lemma bit_length_numeral:
  "bit_length 0 = 0" "bit_length 1 = 1"
  "bit_length (numeral k) = Suc (bit_length (numeral k div 2))"
  by (simp_all add: bit_length.simps)

theorem fit_percent_no_division_by_zero_witness:
  "xp_job \<lparr>skills = [], experience = 0\<rparr> = 1
   \<and> skills_denominator \<lparr>skills = [], experience = 0\<rparr> = 1
   \<and> fit_percent \<lparr>skills = [str ''python''], experience = 2\<rparr> \<lparr>skills = [], experience = 0\<rparr>
       = Inr 30"
  using fit_percent_no_division_by_zero
    [of "\<lparr>skills = [], experience = 0\<rparr>" "\<lparr>skills = [str ''python''], experience = 2\<rparr>"]
  by (simp add: fit_percent_def common_count_def skills_denominator_def xp_job_def
        dbl_eval bit_length_numeral)

end
